theory Spec2Isabelle
  imports Main
begin

section \<open>Strings\<close>

text \<open>
  A Python \<open>str\<close> is a sequence of Unicode code points, so a string is a list of
  code points, each a natural number. \<open>lit\<close> writes an ASCII literal.
\<close>

type_synonym codepoint = nat
type_synonym ustr = "codepoint list"

definition lit :: "string \<Rightarrow> ustr" where
  "lit s = map of_char s"

text \<open>
  \<open>str.isspace\<close> of one code point, which is also what \<open>\s\<close> matches in a \<open>str\<close>
  pattern of \<open>re\<close>: the ASCII characters 9-13, 28-31 and 32, and the Unicode spaces.
\<close>

definition isspace :: "codepoint \<Rightarrow> bool" where
  "isspace c = (c \<in> set [9, 10, 11, 12, 13, 28, 29, 30, 31, 32, 133, 160, 5760,
     8192, 8193, 8194, 8195, 8196, 8197, 8198, 8199, 8200, 8201, 8202,
     8232, 8233, 8239, 8287, 12288])"

text \<open>\<open>text.replace(old, new)\<close> where \<open>old\<close> and \<open>new\<close> are one code point each.\<close>

definition replace_cp :: "codepoint \<Rightarrow> codepoint \<Rightarrow> ustr \<Rightarrow> ustr" where
  "replace_cp old new text = map (\<lambda>c. if c = old then new else c) text"

text \<open>\<open>text.encode("ascii", errors="ignore").decode("ascii", errors="ignore")\<close>\<close>

definition encode_ascii_ignore :: "ustr \<Rightarrow> ustr" where
  "encode_ascii_ignore text = filter (\<lambda>c. c < 128) text"

text \<open>\<open>re.sub(r"\s+", " ", text)\<close>: every maximal run of whitespace becomes one space.\<close>

function sub_ws :: "ustr \<Rightarrow> ustr" where
  "sub_ws [] = []"
| "sub_ws (c # cs) =
     (if isspace c then 32 # sub_ws (dropWhile isspace cs) else c # sub_ws cs)"
  by pat_completeness auto
termination
  by (relation "measure length") (auto simp: length_dropWhile_le less_Suc_eq_le)

text \<open>\<open>text.strip()\<close>\<close>

definition strip :: "ustr \<Rightarrow> ustr" where
  "strip text = rev (dropWhile isspace (rev (dropWhile isspace text)))"

text \<open>\<open>_sanitize_ascii\<close> of \<open>app/agent.py\<close>.\<close>

definition sanitize_ascii :: "ustr \<Rightarrow> ustr" where
  "sanitize_ascii text =
     (if text = [] then []
      else
        let text = replace_cp 8211 45 (replace_cp 8212 45 (replace_cp 8221 34
                    (replace_cp 8220 34 (replace_cp 8216 39 (replace_cp 8217 39 text)))));
            text = encode_ascii_ignore text;
            text = strip (sub_ws text)
        in text)"

text \<open>
  The shape of a sanitized text: a whitespace character is the space 32 and is never
  followed by another whitespace character.
\<close>

fun single_spaced :: "ustr \<Rightarrow> bool" where
  "single_spaced [] = True"
| "single_spaced [c] = (isspace c \<longrightarrow> c = 32)"
| "single_spaced (a # b # cs) =
     ((isspace a \<longrightarrow> a = 32 \<and> \<not> isspace b) \<and> single_spaced (b # cs))"

section \<open>The reply generator (\<open>app/agent.py\<close>)\<close>

text \<open>\<open>needle in text\<close> for two strings: \<open>contains text needle\<close>.\<close>

fun startswith :: "ustr \<Rightarrow> ustr \<Rightarrow> bool" where
  "startswith text [] = True"
| "startswith [] (p # ps) = False"
| "startswith (c # cs) (p # ps) = (c = p \<and> startswith cs ps)"

fun contains :: "ustr \<Rightarrow> ustr \<Rightarrow> bool" where
  "contains [] needle = (needle = [])"
| "contains (c # cs) needle = (startswith (c # cs) needle \<or> contains cs needle)"

text \<open>
  \<open>str.lower\<close> follows the Unicode case tables, which are not part of the repository:
  the functions that call it take it as the parameter \<open>lower\<close>. On ASCII text it is
  \<open>ascii_lower\<close>.
\<close>

definition ascii_lower :: "ustr \<Rightarrow> ustr" where
  "ascii_lower text = map (\<lambda>c. if 65 \<le> c \<and> c \<le> 90 then c + 32 else c) text"

text \<open>Truth value of an \<open>Optional[str]\<close>: \<open>None\<close> and \<open>""\<close> are false.\<close>

fun str_truthy :: "ustr option \<Rightarrow> bool" where
  "str_truthy None = False"
| "str_truthy (Some s) = (s \<noteq> [])"

datatype exn =
    AttributeError | IndexError | KeyError | TypeError
  | APITimeoutError | APIConnectionError | AuthenticationError | OtherException

text \<open>
  The process environment read by \<open>run_agent\<close>: the two variables of \<open>os.getenv\<close>, and
  whether \<open>from openai import OpenAI\<close> succeeded.
\<close>

record env =
  OPENAI_API_KEY :: "ustr option"
  OPENAI_MODEL :: "ustr option"
  openai_imported :: bool

text \<open>
  The external backend: from the API key, the model, the system prompt and the user
  prompt, either the exception raised anywhere inside the \<open>try\<close> block (building the
  client, the request, reading \<open>resp.choices[0].message.content\<close>) or that content,
  which may be \<open>None\<close>.
\<close>

type_synonym backend = "ustr \<Rightarrow> ustr \<Rightarrow> ustr \<Rightarrow> ustr \<Rightarrow> exn + ustr option"

definition intent_keywords :: "ustr list" where
  "intent_keywords = map lit [''price'', ''cost'', ''rate'', ''kitna'', ''suit'', ''order'',
                       ''cod'', ''delivery'']"

definition default_reply :: ustr where
  "default_reply = lit ''Share your city + budget and I'' @ [39] @ lit ''ll finalize the order.''"

definition system_prompt :: ustr where
  "system_prompt =
     lit ''You are a sales assistant for a Pakistani fashion brand. Keep replies short, polite, and in simple English. Use only ASCII punctuation.''"

definition user_prompt :: "ustr \<Rightarrow> ustr option \<Rightarrow> ustr" where
  "user_prompt message_text contact_name =
     lit ''Customer: '' @ message_text @ [10] @ lit ''Name: ''
       @ (case contact_name of None \<Rightarrow> [] | Some name \<Rightarrow> name) @ [10]
       @ lit ''Reply in one line.''"

text \<open>
  \<open>run_agent\<close>. \<open>message_text\<close> is a \<open>str\<close>, on which \<open>message_text or ""\<close> changes
  nothing.
\<close>

definition run_agent ::
  "(ustr \<Rightarrow> ustr) \<Rightarrow> env \<Rightarrow> backend \<Rightarrow> ustr \<Rightarrow> ustr option \<Rightarrow> ustr \<times> ustr" where
  "run_agent lower env backend message_text contact_name =
     (let lower_text = lower message_text;
          stage = (if list_ex (\<lambda>k. contains lower_text k) intent_keywords
                   then lit ''qualified'' else lit ''new'');
          model = (case OPENAI_MODEL env of None \<Rightarrow> lit ''gpt-5-mini'' | Some m \<Rightarrow> m)
      in case OPENAI_API_KEY env of
           None \<Rightarrow> (sanitize_ascii default_reply, stage)
         | Some api_key \<Rightarrow>
             if api_key = [] \<or> \<not> openai_imported env
             then (sanitize_ascii default_reply, stage)
             else (case backend api_key model system_prompt
                          (user_prompt message_text contact_name) of
                     Inr content \<Rightarrow>
                       (sanitize_ascii (case content of
                            None \<Rightarrow> default_reply
                          | Some r \<Rightarrow> if r = [] then default_reply else r), stage)
                   | Inl e \<Rightarrow> (sanitize_ascii default_reply, stage)))"

section \<open>The channel router (\<open>app/meta_router.py\<close>)\<close>

text \<open>
  A payload is a value decoded from JSON. A float is a finite \<open>m * 2 ^ e\<close>, an
  infinity or a NaN; a dict is an association list read with \<open>map_of\<close>.
\<close>

datatype pyfloat = Finite int int | Infinity bool | NaN

datatype json =
    JNone
  | JBool bool
  | JInt int
  | JFloat pyfloat
  | JStr ustr
  | JList "json list"
  | JDict "(ustr \<times> json) list"

fun truthy :: "json \<Rightarrow> bool" where
  "truthy JNone = False"
| "truthy (JBool b) = b"
| "truthy (JInt i) = (i \<noteq> 0)"
| "truthy (JFloat f) = (case f of Finite m e \<Rightarrow> m \<noteq> 0 | Infinity b \<Rightarrow> True | NaN \<Rightarrow> True)"
| "truthy (JStr s) = (s \<noteq> [])"
| "truthy (JList xs) = (xs \<noteq> [])"
| "truthy (JDict kvs) = (kvs \<noteq> [])"

text \<open>\<open>x or y\<close>\<close>

definition py_or :: "json \<Rightarrow> json \<Rightarrow> json" where
  "py_or x y = (if truthy x then x else y)"

text \<open>\<open>x.get(key, default)\<close>: only a dict has \<open>get\<close>.\<close>

fun dict_get :: "json \<Rightarrow> ustr \<Rightarrow> json \<Rightarrow> exn + json" where
  "dict_get (JDict kvs) key dflt = Inr (case map_of kvs key of None \<Rightarrow> dflt | Some v \<Rightarrow> v)"
| "dict_get x key dflt = Inl AttributeError"

text \<open>\<open>x[0]\<close>. The keys of a decoded JSON object are strings, never \<open>0\<close>.\<close>

fun first_item :: "json \<Rightarrow> exn + json" where
  "first_item (JList []) = Inl IndexError"
| "first_item (JList (x # xs)) = Inr x"
| "first_item (JStr []) = Inl IndexError"
| "first_item (JStr (c # cs)) = Inr (JStr [c])"
| "first_item (JDict kvs) = Inl KeyError"
| "first_item x = Inl TypeError"

text \<open>Sequencing of statements that may raise.\<close>

definition and_then :: "exn + 'a \<Rightarrow> ('a \<Rightarrow> exn + 'b) \<Rightarrow> exn + 'b" where
  "and_then m f = (case m of Inl e \<Rightarrow> Inl e | Inr x \<Rightarrow> f x)"

definition detect_channel :: "json \<Rightarrow> exn + ustr" where
  "detect_channel payload =
     and_then (dict_get payload (lit ''object'') (JStr [])) (\<lambda>obj.
       Inr (if obj = JStr (lit ''whatsapp_business_account'') then lit ''whatsapp''
            else if obj = JStr (lit ''page'') then lit ''messenger''
            else if obj = JStr (lit ''instagram'') then lit ''instagram''
            else lit ''unknown''))"

text \<open>The body of the \<open>try\<close> block of \<open>extract_routing_key\<close>.\<close>

definition routing_key_body :: "ustr \<Rightarrow> json \<Rightarrow> exn + json" where
  "routing_key_body ch payload =
     (if ch = lit ''whatsapp'' then
        and_then (dict_get payload (lit ''entry'') JNone) (\<lambda>e.
        and_then (first_item (py_or e (JList []))) (\<lambda>entry.
        and_then (dict_get entry (lit ''changes'') JNone) (\<lambda>c.
        and_then (first_item (py_or c (JList []))) (\<lambda>change.
        and_then (dict_get change (lit ''value'') JNone) (\<lambda>v.
        and_then (dict_get (py_or v (JDict [])) (lit ''metadata'') JNone) (\<lambda>m.
        dict_get (py_or m (JDict [])) (lit ''phone_number_id'') JNone))))))
      else
        and_then (dict_get payload (lit ''entry'') JNone) (\<lambda>e.
        and_then (first_item (py_or e (JList []))) (\<lambda>entry.
        dict_get entry (lit ''id'') JNone)))"

text \<open>
  \<open>extract_routing_key\<close>: \<open>detect_channel\<close> is called before the \<open>try\<close>, so what it
  raises is raised by \<open>extract_routing_key\<close>; \<open>except Exception\<close> turns whatever the
  body raises into \<open>None\<close>.
\<close>

definition extract_routing_key :: "json \<Rightarrow> exn + json" where
  "extract_routing_key payload =
     and_then (detect_channel payload) (\<lambda>ch.
       case routing_key_body ch payload of Inl e \<Rightarrow> Inr JNone | Inr key \<Rightarrow> Inr key)"

text \<open>
  The routing key as the specification words it. For a whatsapp payload, the
  \<open>phone_number_id\<close> at \<open>entry[0].changes[0].value.metadata\<close>; for any other channel the
  \<open>id\<close> of \<open>entry[0]\<close>; \<open>None\<close> when the payload has another shape.
\<close>

definition routing_key_spec :: "(ustr \<times> json) list \<Rightarrow> json" where
  "routing_key_spec kvs =
     (if map_of kvs (lit ''object'') = Some (JStr (lit ''whatsapp_business_account'')) then
        (case map_of kvs (lit ''entry'') of
           Some (JList (JDict entry # rest)) \<Rightarrow>
             (case map_of entry (lit ''changes'') of
                Some (JList (JDict change # rest')) \<Rightarrow>
                  (case map_of change (lit ''value'') of
                     Some (JDict val) \<Rightarrow>
                       (case map_of val (lit ''metadata'') of
                          Some (JDict meta) \<Rightarrow>
                            (case map_of meta (lit ''phone_number_id'') of
                               Some key \<Rightarrow> key
                             | None \<Rightarrow> JNone)
                        | _ \<Rightarrow> JNone)
                   | _ \<Rightarrow> JNone)
              | _ \<Rightarrow> JNone)
         | _ \<Rightarrow> JNone)
      else
        (case map_of kvs (lit ''entry'') of
           Some (JList (JDict entry # rest)) \<Rightarrow>
             (case map_of entry (lit ''id'') of Some key \<Rightarrow> key | None \<Rightarrow> JNone)
         | _ \<Rightarrow> JNone))"

section \<open>The inbound-message handler (\<open>simulate\<close> of \<open>app/main.py\<close>)\<close>

text \<open>
  The rows of \<open>app/models.py\<close>, without the \<open>created_at\<close> and \<open>updated_at\<close> columns,
  which hold the clock's time at the insert and are read by nothing here. A table is
  the list of its rows in insertion order.
\<close>

record contact =
  c_id :: int
  c_tenant_id :: int
  c_channel :: ustr
  c_channel_user_id :: ustr
  c_contact_name :: "ustr option"
  c_phone :: "ustr option"
  c_email :: "ustr option"

record deal =
  d_id :: int
  d_tenant_id :: int
  d_contact_id :: int
  d_stage :: ustr
  d_status :: ustr
  d_city :: "ustr option"
  d_budget :: "ustr option"
  d_notes :: "ustr option"

record message =
  m_id :: int
  m_tenant_id :: int
  m_contact_id :: int
  m_channel :: ustr
  m_direction :: ustr
  m_text :: ustr

record db =
  contacts :: "contact list"
  deals :: "deal list"
  messages :: "message list"

text \<open>The authenticated user, as far as \<open>simulate\<close> reads it, and the request body.\<close>

record user =
  u_id :: int
  u_tenant_id :: "int option"

record simulate_in =
  p_channel :: ustr
  p_channel_user_id :: ustr
  p_text :: ustr
  p_contact_name :: "ustr option"

text \<open>
  What a completed call hands back: the response body \<open>ok\<close>, \<open>reply\<close>, \<open>stage\<close>, and
  with it the two rows the handler worked on, \<open>contact\<close> and \<open>deal\<close>, the deal as
  it was resolved, before the stage assignment.
\<close>

record handled =
  r_ok :: bool
  r_reply :: ustr
  r_stage :: ustr
  r_contact :: contact
  r_deal :: deal

text \<open>
  The handler calls \<open>db.commit()\<close> after each write: after the contact is created
  or its name filled in, after the inbound message, after a deal is created, after the
  stage assignment and after the outbound message. A commit that raises ends the
  request, and closing the session drops what was pending, so the database stays as
  the last successful commit left it. Which commits raise is the parameter \<open>fails\<close>.
\<close>

datatype commit_point =
  CommitContact | CommitInbound | CommitDeal | CommitStage | CommitOutbound

datatype failure = HTTPException nat | PersistenceError

text \<open>
  The id given to a new row of a table with an integer primary key on SQLite, the
  database of \<open>app/config.py\<close>: one more than the greatest id in the table. That is
  the rule while the greatest id is below the last rowid, \<open>2 ^ 63 - 1\<close>; in a table
  that holds the last rowid SQLite takes an unused id at random, which no function of
  the table gives, and \<open>next_id\<close> does not follow it there. What is stated of a new
  id below is that it is not in the table, which holds in both cases, or is stated of
  tables below the last rowid.
\<close>

definition next_id :: "int list \<Rightarrow> int" where
  "next_id ids = (case ids of [] \<Rightarrow> 1 | i # rest \<Rightarrow> fold max rest i + 1)"

text \<open>
  The contact query: the first row of the tenant with the channel and the channel
  user id. The unique constraint \<open>uq_contact_channel_user\<close> leaves at most one such
  row, so the order in which the database returns rows plays no part.
\<close>

definition find_contact :: "db \<Rightarrow> int \<Rightarrow> ustr \<Rightarrow> ustr \<Rightarrow> contact option" where
  "find_contact s tenant_id channel channel_user_id =
     find (\<lambda>c. c_tenant_id c = tenant_id \<and> c_channel c = channel
                \<and> c_channel_user_id c = channel_user_id) (contacts s)"

text \<open>
  Find or create the contact. The result is the contact, the database with the
  pending write, and whether there is a write to commit.
\<close>

definition resolve_contact :: "db \<Rightarrow> int \<Rightarrow> simulate_in \<Rightarrow> contact \<times> db \<times> bool" where
  "resolve_contact s tenant_id payload =
     (case find_contact s tenant_id (p_channel payload) (p_channel_user_id payload) of
        None \<Rightarrow>
          let contact = \<lparr>c_id = next_id (map c_id (contacts s)),
                         c_tenant_id = tenant_id,
                         c_channel = p_channel payload,
                         c_channel_user_id = p_channel_user_id payload,
                         c_contact_name = p_contact_name payload,
                         c_phone = (if p_channel payload = lit ''whatsapp''
                                    then Some (p_channel_user_id payload) else None),
                         c_email = None\<rparr>
          in (contact, s\<lparr>contacts := contacts s @ [contact]\<rparr>, True)
      | Some contact \<Rightarrow>
          if str_truthy (p_contact_name payload) \<and> \<not> str_truthy (c_contact_name contact)
          then (contact\<lparr>c_contact_name := p_contact_name payload\<rparr>,
                s\<lparr>contacts := map (\<lambda>c. if c_id c = c_id contact
                                         then c\<lparr>c_contact_name := p_contact_name payload\<rparr>
                                         else c) (contacts s)\<rparr>,
                True)
          else (contact, s, False))"

text \<open>Insert a message row.\<close>

definition new_message :: "db \<Rightarrow> int \<Rightarrow> int \<Rightarrow> ustr \<Rightarrow> ustr \<Rightarrow> ustr \<Rightarrow> message" where
  "new_message s tenant_id contact_id channel direction text =
     \<lparr>m_id = next_id (map m_id (messages s)), m_tenant_id = tenant_id,
      m_contact_id = contact_id, m_channel = channel, m_direction = direction,
      m_text = text\<rparr>"

definition add_message :: "db \<Rightarrow> int \<Rightarrow> int \<Rightarrow> ustr \<Rightarrow> ustr \<Rightarrow> ustr \<Rightarrow> db" where
  "add_message s tenant_id contact_id channel direction text =
     s\<lparr>messages := messages s
          @ [new_message s tenant_id contact_id channel direction text]\<rparr>"

text \<open>\<open>order_by(desc(Deal.id)).first()\<close>: the row with the greatest id.\<close>

fun greatest_id :: "deal list \<Rightarrow> deal option" where
  "greatest_id [] = None"
| "greatest_id (d # ds) =
     (case greatest_id ds of
        None \<Rightarrow> Some d
      | Some e \<Rightarrow> Some (if d_id e < d_id d then d else e))"

definition open_deals :: "db \<Rightarrow> int \<Rightarrow> int \<Rightarrow> deal list" where
  "open_deals s tenant_id contact_id =
     filter (\<lambda>d. d_tenant_id d = tenant_id \<and> d_contact_id d = contact_id
                  \<and> d_status d = lit ''open'') (deals s)"

definition find_open_deal :: "db \<Rightarrow> int \<Rightarrow> int \<Rightarrow> deal option" where
  "find_open_deal s tenant_id contact_id = greatest_id (open_deals s tenant_id contact_id)"

text \<open>
  Find or create the open deal. The result is the deal, the database with the
  pending insert, and whether a deal was created.
\<close>

definition resolve_deal :: "db \<Rightarrow> int \<Rightarrow> int \<Rightarrow> deal \<times> db \<times> bool" where
  "resolve_deal s tenant_id contact_id =
     (case find_open_deal s tenant_id contact_id of
        None \<Rightarrow>
          let deal = \<lparr>d_id = next_id (map d_id (deals s)), d_tenant_id = tenant_id,
                      d_contact_id = contact_id, d_stage = lit ''new'',
                      d_status = lit ''open'', d_city = None, d_budget = None,
                      d_notes = None\<rparr>
          in (deal, s\<lparr>deals := deals s @ [deal]\<rparr>, True)
      | Some deal \<Rightarrow> (deal, s, False))"

text \<open>The update of \<open>deal.stage\<close>, written by the next commit.\<close>

definition set_stage :: "db \<Rightarrow> int \<Rightarrow> ustr \<Rightarrow> db" where
  "set_stage s deal_id stage =
     s\<lparr>deals := map (\<lambda>d. if d_id d = deal_id then d\<lparr>d_stage := stage\<rparr> else d) (deals s)\<rparr>"

text \<open>The two replies of \<open>simulate\<close>; the first has U+2019 in \<open>I'll\<close>.\<close>

definition reply_price :: ustr where
  "reply_price = lit ''Share your city + budget and I'' @ [8217] @ lit ''ll finalize the order.''"

definition reply_other :: ustr where
  "reply_other = lit ''Thanks! Share your city + budget so I can guide you.''"

definition has_price_or_rate :: "ustr \<Rightarrow> bool" where
  "has_price_or_rate text_lower =
     (contains text_lower (lit ''price'') \<or> contains text_lower (lit ''rate''))"

definition simulate ::
  "(ustr \<Rightarrow> ustr) \<Rightarrow> (commit_point \<Rightarrow> bool) \<Rightarrow> db \<Rightarrow> user \<Rightarrow> simulate_in
     \<Rightarrow> (failure + handled) \<times> db" where
  "simulate lower fails s0 user payload =
     (case u_tenant_id user of
        None \<Rightarrow> (Inl (HTTPException 400), s0)
      | Some tenant_id \<Rightarrow>
          let (contact, s1, dirty) = resolve_contact s0 tenant_id payload in
          if dirty \<and> fails CommitContact then (Inl PersistenceError, s0) else
          let s2 = add_message s1 tenant_id (c_id contact) (p_channel payload)
                     (lit ''in'') (p_text payload) in
          if fails CommitInbound then (Inl PersistenceError, s1) else
          let (deal, s3, created) = resolve_deal s2 tenant_id (c_id contact) in
          if created \<and> fails CommitDeal then (Inl PersistenceError, s2) else
          let text_lower = lower (p_text payload);
              reply = (if has_price_or_rate text_lower then reply_price else reply_other);
              stage = (if has_price_or_rate text_lower then lit ''qualified''
                       else if d_stage deal = [] then lit ''new'' else d_stage deal);
              s4 = set_stage s3 (d_id deal) stage in
          if fails CommitStage then (Inl PersistenceError, s3) else
          let s5 = add_message s4 tenant_id (c_id contact) (p_channel payload)
                     (lit ''out'') reply in
          if fails CommitOutbound then (Inl PersistenceError, s4) else
          (Inr \<lparr>r_ok = True, r_reply = reply, r_stage = stage,
                r_contact = contact, r_deal = deal\<rparr>, s5))"

text \<open>The funnel order \<open>new < qualified < order < closed\<close>.\<close>

definition stage_rank :: "ustr \<Rightarrow> nat option" where
  "stage_rank st =
     (if st = lit ''new'' then Some 0
      else if st = lit ''qualified'' then Some 1
      else if st = lit ''order'' then Some 2
      else if st = lit ''closed'' then Some 3
      else None)"

definition stage_le :: "ustr \<Rightarrow> ustr \<Rightarrow> bool" where
  "stage_le a b =
     (case (stage_rank a, stage_rank b) of (Some i, Some j) \<Rightarrow> i \<le> j | _ \<Rightarrow> False)"

text \<open>
  The invariants of the tables: ids are primary keys, and no contact of a tenant has
  two deals with status \<open>open\<close>.
\<close>

definition pk_ok :: "db \<Rightarrow> bool" where
  "pk_ok s = (distinct (map c_id (contacts s)) \<and> distinct (map d_id (deals s))
              \<and> distinct (map m_id (messages s)))"

definition one_open_deal :: "db \<Rightarrow> bool" where
  "one_open_deal s =
     distinct (map (\<lambda>d. (d_tenant_id d, d_contact_id d))
                 (filter (\<lambda>d. d_status d = lit ''open'') (deals s)))"

text \<open>
  The rows of every tenant other than \<open>t\<close> are the same, in the same order, in \<open>s\<close>
  and in \<open>s'\<close>.
\<close>

definition others_unchanged :: "int \<Rightarrow> db \<Rightarrow> db \<Rightarrow> bool" where
  "others_unchanged t s s' =
     (filter (\<lambda>c. c_tenant_id c \<noteq> t) (contacts s') = filter (\<lambda>c. c_tenant_id c \<noteq> t) (contacts s)
      \<and> filter (\<lambda>d. d_tenant_id d \<noteq> t) (deals s') = filter (\<lambda>d. d_tenant_id d \<noteq> t) (deals s)
      \<and> filter (\<lambda>m. m_tenant_id m \<noteq> t) (messages s')
          = filter (\<lambda>m. m_tenant_id m \<noteq> t) (messages s))"

text \<open>The rows of tenant \<open>t\<close> alone.\<close>

definition tenant_rows :: "int \<Rightarrow> db \<Rightarrow> db" where
  "tenant_rows t s =
     \<lparr>contacts = filter (\<lambda>c. c_tenant_id c = t) (contacts s),
      deals = filter (\<lambda>d. d_tenant_id d = t) (deals s),
      messages = filter (\<lambda>m. m_tenant_id m = t) (messages s)\<rparr>"

section \<open>Requests that overlap\<close>

text \<open>
  Each request has its own session, and between two statements of one request another
  request may run. A request is then its position in \<open>simulate\<close> and its local
  variables; one step is one query, or one write with its commit. The tenant check is
  passed before the first step, and no commit fails here except the insert of a contact
  that the unique constraint \<open>uq_contact_channel_user\<close> refuses.
\<close>

datatype pc =
    ContactQuery | ContactWrite | InboundWrite | DealQuery | DealWrite | StageWrite
  | OutboundWrite | Returned | Raised

record request =
  q_tenant_id :: int
  q_payload :: simulate_in
  q_pc :: pc
  q_contact :: "contact option"
  q_deal :: "deal option"
  q_reply :: ustr
  q_stage :: ustr

definition start :: "int \<Rightarrow> simulate_in \<Rightarrow> request" where
  "start tenant_id payload =
     \<lparr>q_tenant_id = tenant_id, q_payload = payload, q_pc = ContactQuery,
      q_contact = None, q_deal = None, q_reply = [], q_stage = []\<rparr>"

text \<open>
  One step of a request on the database as it is now. The stage is assigned from the
  deal as the request loaded it, and the commit writes it only when the assignment
  changed it; the stage of the response is read again from the row after the last
  commit, every commit having expired the loaded rows.
\<close>

definition step :: "(ustr \<Rightarrow> ustr) \<Rightarrow> db \<Rightarrow> request \<Rightarrow> db \<times> request" where
  "step lower s q =
     (let tenant_id = q_tenant_id q; payload = q_payload q in
      case q_pc q of
        ContactQuery \<Rightarrow>
          (s, q\<lparr>q_contact := find_contact s tenant_id (p_channel payload)
                                (p_channel_user_id payload),
                 q_pc := ContactWrite\<rparr>)
      | ContactWrite \<Rightarrow>
          (case q_contact q of
             None \<Rightarrow>
               (case find_contact s tenant_id (p_channel payload)
                       (p_channel_user_id payload) of
                  Some other \<Rightarrow> (s, q\<lparr>q_pc := Raised\<rparr>)
                | None \<Rightarrow>
                    let contact = \<lparr>c_id = next_id (map c_id (contacts s)),
                                   c_tenant_id = tenant_id,
                                   c_channel = p_channel payload,
                                   c_channel_user_id = p_channel_user_id payload,
                                   c_contact_name = p_contact_name payload,
                                   c_phone = (if p_channel payload = lit ''whatsapp''
                                              then Some (p_channel_user_id payload)
                                              else None),
                                   c_email = None\<rparr>
                    in (s\<lparr>contacts := contacts s @ [contact]\<rparr>,
                        q\<lparr>q_contact := Some contact, q_pc := InboundWrite\<rparr>))
           | Some contact \<Rightarrow>
               if str_truthy (p_contact_name payload)
                  \<and> \<not> str_truthy (c_contact_name contact)
               then (s\<lparr>contacts := map (\<lambda>c. if c_id c = c_id contact
                                          then c\<lparr>c_contact_name := p_contact_name payload\<rparr>
                                          else c) (contacts s)\<rparr>,
                     q\<lparr>q_contact := Some (contact\<lparr>c_contact_name := p_contact_name payload\<rparr>),
                       q_pc := InboundWrite\<rparr>)
               else (s, q\<lparr>q_pc := InboundWrite\<rparr>))
      | InboundWrite \<Rightarrow>
          (case q_contact q of
             None \<Rightarrow> (s, q\<lparr>q_pc := Raised\<rparr>)
           | Some contact \<Rightarrow>
               (add_message s tenant_id (c_id contact) (p_channel payload) (lit ''in'')
                  (p_text payload),
                q\<lparr>q_pc := DealQuery\<rparr>))
      | DealQuery \<Rightarrow>
          (case q_contact q of
             None \<Rightarrow> (s, q\<lparr>q_pc := Raised\<rparr>)
           | Some contact \<Rightarrow>
               (s, q\<lparr>q_deal := find_open_deal s tenant_id (c_id contact),
                      q_pc := DealWrite\<rparr>))
      | DealWrite \<Rightarrow>
          (case q_contact q of
             None \<Rightarrow> (s, q\<lparr>q_pc := Raised\<rparr>)
           | Some contact \<Rightarrow>
               (case q_deal q of
                  None \<Rightarrow>
                    let deal = \<lparr>d_id = next_id (map d_id (deals s)),
                                d_tenant_id = tenant_id, d_contact_id = c_id contact,
                                d_stage = lit ''new'', d_status = lit ''open'',
                                d_city = None, d_budget = None, d_notes = None\<rparr>
                    in (s\<lparr>deals := deals s @ [deal]\<rparr>,
                        q\<lparr>q_deal := Some deal, q_pc := StageWrite\<rparr>)
                | Some deal \<Rightarrow> (s, q\<lparr>q_pc := StageWrite\<rparr>)))
      | StageWrite \<Rightarrow>
          (case q_deal q of
             None \<Rightarrow> (s, q\<lparr>q_pc := Raised\<rparr>)
           | Some deal \<Rightarrow>
               let text_lower = lower (p_text payload);
                   reply = (if has_price_or_rate text_lower then reply_price
                            else reply_other);
                   stage = (if has_price_or_rate text_lower then lit ''qualified''
                            else if d_stage deal = [] then lit ''new'' else d_stage deal)
               in (if stage = d_stage deal then s else set_stage s (d_id deal) stage,
                   q\<lparr>q_reply := reply, q_stage := stage, q_pc := OutboundWrite\<rparr>))
      | OutboundWrite \<Rightarrow>
          (case (q_contact q, q_deal q) of
             (Some contact, Some deal) \<Rightarrow>
               (case find (\<lambda>d. d_id d = d_id deal) (deals s) of
                  None \<Rightarrow>
                    (add_message s tenant_id (c_id contact) (p_channel payload)
                       (lit ''out'') (q_reply q),
                     q\<lparr>q_pc := Raised\<rparr>)
                | Some row \<Rightarrow>
                    (add_message s tenant_id (c_id contact) (p_channel payload)
                       (lit ''out'') (q_reply q),
                     q\<lparr>q_stage := d_stage row, q_pc := Returned\<rparr>))
           | _ \<Rightarrow> (s, q\<lparr>q_pc := Raised\<rparr>))
      | Returned \<Rightarrow> (s, q)
      | Raised \<Rightarrow> (s, q))"

text \<open>
  A schedule names, step by step, the request that moves next.
\<close>

fun interleave ::
  "(ustr \<Rightarrow> ustr) \<Rightarrow> nat list \<Rightarrow> db \<Rightarrow> request list \<Rightarrow> db \<times> request list" where
  "interleave lower [] s qs = (s, qs)"
| "interleave lower (i # schedule) s qs =
     (if i < length qs
      then (let (s', q') = step lower s (qs ! i)
            in interleave lower schedule s' (qs[i := q']))
      else interleave lower schedule s qs)"

text \<open>The last rowid of SQLite.\<close>

definition max_rowid :: int where
  "max_rowid = 9223372036854775807"

section \<open>Sample inputs\<close>

definition env_key :: env where
  "env_key = \<lparr>OPENAI_API_KEY = Some (lit ''sk-test''), OPENAI_MODEL = None,
               openai_imported = True\<rparr>"

definition backend_timeout :: backend where
  "backend_timeout key model system user = Inl APITimeoutError"

definition backend_ok :: backend where
  "backend_ok key model system user = Inr (Some (lit ''Sure, it is 2500.''))"

text \<open>A fault plan with no fault, and one with a single failing commit.\<close>

definition no_faults :: "commit_point \<Rightarrow> bool" where
  "no_faults k = False"

definition fault_at :: "commit_point \<Rightarrow> commit_point \<Rightarrow> bool" where
  "fault_at k k' = (k' = k)"

definition db_empty :: db where
  "db_empty = \<lparr>contacts = [], deals = [], messages = []\<rparr>"

definition agent1 :: user where
  "agent1 = \<lparr>u_id = 1, u_tenant_id = Some 1\<rparr>"

definition agent2 :: user where
  "agent2 = \<lparr>u_id = 2, u_tenant_id = Some 2\<rparr>"

definition msg_price :: simulate_in where
  "msg_price = \<lparr>p_channel = lit ''whatsapp'', p_channel_user_id = lit ''923001234567'',
                 p_text = lit ''Hi, what'' @ [39] @ lit ''s the price?'',
                 p_contact_name = None\<rparr>"

definition msg_ok :: simulate_in where
  "msg_ok = \<lparr>p_channel = lit ''whatsapp'', p_channel_user_id = lit ''923001234567'',
              p_text = lit ''ok'', p_contact_name = None\<rparr>"

text \<open>The rows of the first scenario of the specification, and the tables they make.\<close>

definition contact1 :: contact where
  "contact1 = \<lparr>c_id = 1, c_tenant_id = 1, c_channel = lit ''whatsapp'',
                c_channel_user_id = lit ''923001234567'', c_contact_name = None,
                c_phone = Some (lit ''923001234567''), c_email = None\<rparr>"

definition deal1 :: "ustr \<Rightarrow> deal" where
  "deal1 st = \<lparr>d_id = 1, d_tenant_id = 1, d_contact_id = 1, d_stage = st,
                d_status = lit ''open'', d_city = None, d_budget = None, d_notes = None\<rparr>"

definition msg_in1 :: message where
  "msg_in1 = \<lparr>m_id = 1, m_tenant_id = 1, m_contact_id = 1, m_channel = lit ''whatsapp'',
               m_direction = lit ''in'',
               m_text = lit ''Hi, what'' @ [39] @ lit ''s the price?''\<rparr>"

definition msg_out1 :: message where
  "msg_out1 = \<lparr>m_id = 2, m_tenant_id = 1, m_contact_id = 1, m_channel = lit ''whatsapp'',
                m_direction = lit ''out'', m_text = reply_price\<rparr>"

definition db_first :: db where
  "db_first = \<lparr>contacts = [contact1], deals = [deal1 (lit ''qualified'')],
                messages = [msg_in1, msg_out1]\<rparr>"

definition db_order :: db where
  "db_order = \<lparr>contacts = [contact1], deals = [deal1 (lit ''order'')], messages = []\<rparr>"

text \<open>A contact with two open deals, which the tables do not forbid.\<close>

definition deal3 :: deal where
  "deal3 = \<lparr>d_id = 3, d_tenant_id = 1, d_contact_id = 1, d_stage = lit ''new'',
             d_status = lit ''open'', d_city = None, d_budget = None, d_notes = None\<rparr>"

definition db_two_open :: db where
  "db_two_open = \<lparr>contacts = [contact1], deals = [deal3, deal1 (lit ''qualified'')],
                   messages = []\<rparr>"

text \<open>The same channel user writing to tenant 2, after the first scenario.\<close>

definition contact2 :: contact where
  "contact2 = \<lparr>c_id = 2, c_tenant_id = 2, c_channel = lit ''whatsapp'',
                c_channel_user_id = lit ''923001234567'', c_contact_name = None,
                c_phone = Some (lit ''923001234567''), c_email = None\<rparr>"

definition deal2 :: "ustr \<Rightarrow> deal" where
  "deal2 st = \<lparr>d_id = 2, d_tenant_id = 2, d_contact_id = 2, d_stage = st,
                d_status = lit ''open'', d_city = None, d_budget = None, d_notes = None\<rparr>"

definition db_second_tenant :: db where
  "db_second_tenant =
     \<lparr>contacts = [contact1, contact2],
      deals = [deal1 (lit ''qualified''), deal2 (lit ''new'')],
      messages = [msg_in1, msg_out1,
        \<lparr>m_id = 3, m_tenant_id = 2, m_contact_id = 2, m_channel = lit ''whatsapp'',
         m_direction = lit ''in'', m_text = lit ''ok''\<rparr>,
        \<lparr>m_id = 4, m_tenant_id = 2, m_contact_id = 2, m_channel = lit ''whatsapp'',
         m_direction = lit ''out'', m_text = reply_other\<rparr>]\<rparr>"

text \<open>The tables after each commit of the first scenario.\<close>

definition db_contact :: db where
  "db_contact = \<lparr>contacts = [contact1], deals = [], messages = []\<rparr>"

definition db_inbound :: db where
  "db_inbound = \<lparr>contacts = [contact1], deals = [], messages = [msg_in1]\<rparr>"

definition db_deal :: db where
  "db_deal = \<lparr>contacts = [contact1], deals = [deal1 (lit ''new'')], messages = [msg_in1]\<rparr>"

definition db_stage :: db where
  "db_stage = \<lparr>contacts = [contact1], deals = [deal1 (lit ''qualified'')],
                messages = [msg_in1]\<rparr>"

text \<open>
  Two requests of tenant 1 for the contact of the first scenario, and the tables they
  leave when each looks for an open deal before the other has created one.
\<close>

definition race_schedule :: "nat list" where
  "race_schedule = [0, 0, 0, 0, 1, 1, 1, 1, 0, 1, 0, 0, 1, 1]"

definition deal_race :: deal where
  "deal_race = \<lparr>d_id = 2, d_tenant_id = 1, d_contact_id = 1, d_stage = lit ''new'',
                 d_status = lit ''open'', d_city = None, d_budget = None, d_notes = None\<rparr>"

definition db_race :: db where
  "db_race =
     \<lparr>contacts = [contact1],
      deals = [deal1 (lit ''qualified''), deal_race],
      messages = [msg_in1,
        \<lparr>m_id = 2, m_tenant_id = 1, m_contact_id = 1, m_channel = lit ''whatsapp'',
         m_direction = lit ''in'', m_text = lit ''ok''\<rparr>,
        \<lparr>m_id = 3, m_tenant_id = 1, m_contact_id = 1, m_channel = lit ''whatsapp'',
         m_direction = lit ''out'', m_text = reply_price\<rparr>,
        \<lparr>m_id = 4, m_tenant_id = 1, m_contact_id = 1, m_channel = lit ''whatsapp'',
         m_direction = lit ''out'', m_text = reply_other\<rparr>]\<rparr>"

section \<open>Sanitization\<close>

lemma isspace_32: "isspace 32"
  by (simp add: isspace_def)

lemma sub_ws_ascii: "\<forall>c\<in>set s. c < 128 \<Longrightarrow> \<forall>c\<in>set (sub_ws s). c < 128"
proof (induction s rule: sub_ws.induct)
  case 1
  then show ?case by simp
next
  case (2 c cs)
  have "set (dropWhile isspace cs) \<subseteq> set cs"
    by (simp add: set_dropWhileD subsetI)
  with 2 show ?case by auto
qed

lemma sub_ws_head: "\<not> isspace x \<Longrightarrow> sub_ws (x # xs) = x # sub_ws xs"
  by simp

lemma dropWhile_head: "dropWhile P xs = y # ys \<Longrightarrow> \<not> P y"
  by (metis hd_dropWhile list.sel(1) list.distinct(1))

lemma single_spaced_Cons:
  "single_spaced (a # t) =
     ((isspace a \<longrightarrow> a = 32 \<and> (t \<noteq> [] \<longrightarrow> \<not> isspace (hd t))) \<and> single_spaced t)"
  by (cases t) auto

lemma sub_ws_single_spaced: "single_spaced (sub_ws s)"
proof (induction s rule: sub_ws.induct)
  case 1
  then show ?case by simp
next
  case (2 c cs)
  show ?case
  proof (cases "isspace c")
    case True
    define d where "d = dropWhile isspace cs"
    have hd: "sub_ws d \<noteq> [] \<longrightarrow> \<not> isspace (hd (sub_ws d))"
    proof (cases d)
      case Nil
      then show ?thesis by simp
    next
      case (Cons y ys)
      then have "\<not> isspace y"
        unfolding d_def by (rule dropWhile_head)
      with Cons show ?thesis by simp
    qed
    from True 2 hd [unfolded d_def] show ?thesis
      by (simp add: single_spaced_Cons)
  next
    case False
    with 2 show ?thesis by (simp add: single_spaced_Cons)
  qed
qed

lemma single_spaced_sub_ws_id: "single_spaced t \<Longrightarrow> sub_ws t = t"
proof (induction t rule: single_spaced.induct)
  case 1
  then show ?case by simp
next
  case (2 c)
  then show ?case by simp
next
  case (3 a b cs)
  then show ?case by auto
qed

lemma single_spaced_append:
  "single_spaced (xs @ ys) \<Longrightarrow> single_spaced xs \<and> single_spaced ys"
proof (induction xs rule: single_spaced.induct)
  case 1
  then show ?case by simp
next
  case (2 c)
  then show ?case by (cases ys) auto
next
  case (3 a b cs)
  then show ?case by auto
qed

lemma strip_infix: "\<exists>us vs. t = us @ strip t @ vs"
proof -
  obtain us where u: "t = us @ dropWhile isspace t"
    by (metis takeWhile_dropWhile_id)
  obtain ws where w: "rev (dropWhile isspace t) = ws @ dropWhile isspace (rev (dropWhile isspace t))"
    by (metis takeWhile_dropWhile_id)
  have "dropWhile isspace t = strip t @ rev ws"
    using w by (metis rev_append rev_rev_ident strip_def)
  with u show ?thesis by metis
qed

lemma strip_single_spaced: "single_spaced t \<Longrightarrow> single_spaced (strip t)"
  using strip_infix [of t] single_spaced_append by metis

lemma strip_subset: "set (strip t) \<subseteq> set t"
  using strip_infix [of t] by (metis Un_upper1 Un_upper2 set_append subset_trans)

lemma strip_hd: "strip t \<noteq> [] \<Longrightarrow> \<not> isspace (hd (strip t))"
proof -
  assume ne: "strip t \<noteq> []"
  define d where "d = dropWhile isspace t"
  define e where "e = dropWhile isspace (rev d)"
  have st: "strip t = rev e" by (simp add: strip_def d_def e_def)
  obtain ws where "rev d = ws @ e"
    unfolding e_def by (metis takeWhile_dropWhile_id)
  then have de: "d = rev e @ rev ws"
    by (metis rev_append rev_rev_ident)
  from ne st have "rev e \<noteq> []" by simp
  with de have dne: "d \<noteq> []" and hd: "hd d = hd (strip t)"
    using st by simp_all
  from dne have "\<not> isspace (hd d)"
    unfolding d_def by (cases "dropWhile isspace t") (auto dest: dropWhile_head)
  with hd show ?thesis by simp
qed

lemma strip_last: "strip t \<noteq> [] \<Longrightarrow> \<not> isspace (last (strip t))"
proof -
  assume ne: "strip t \<noteq> []"
  define e where "e = dropWhile isspace (rev (dropWhile isspace t))"
  have st: "strip t = rev e" by (simp add: strip_def e_def)
  with ne have ene: "e \<noteq> []" by simp
  then have "\<not> isspace (hd e)"
    unfolding e_def
    by (cases "dropWhile isspace (rev (dropWhile isspace t))") (auto dest: dropWhile_head)
  moreover have "last (strip t) = hd e"
    using st ene by (simp add: last_rev)
  ultimately show ?thesis by simp
qed

lemma strip_id: "t \<noteq> [] \<Longrightarrow> \<not> isspace (hd t) \<Longrightarrow> \<not> isspace (last t) \<Longrightarrow> strip t = t"
proof -
  assume ne: "t \<noteq> []" and h: "\<not> isspace (hd t)" and l: "\<not> isspace (last t)"
  from ne h have d: "dropWhile isspace t = t" by (cases t) auto
  from ne l have "\<not> isspace (hd (rev t))" by (simp add: hd_rev)
  with ne have "dropWhile isspace (rev t) = rev t" by (cases "rev t") auto
  with d show ?thesis by (simp add: strip_def)
qed

lemma replace_cp_id: "\<forall>c\<in>set t. c \<noteq> old \<Longrightarrow> replace_cp old new t = t"
  by (induction t) (auto simp: replace_cp_def)

lemma encode_ascii_ignore_id: "\<forall>c\<in>set t. c < 128 \<Longrightarrow> encode_ascii_ignore t = t"
  by (simp add: encode_ascii_ignore_def)

lemma encode_ascii_ignore_ascii: "\<forall>c\<in>set (encode_ascii_ignore t). c < 128"
  by (simp add: encode_ascii_ignore_def)

lemma sanitize_ascii_ascii: "\<forall>c\<in>set (sanitize_ascii s). c < 128"
proof (cases "s = []")
  case True
  then show ?thesis by (simp add: sanitize_ascii_def)
next
  case False
  let ?e = "encode_ascii_ignore (replace_cp 8211 45 (replace_cp 8212 45 (replace_cp 8221 34
              (replace_cp 8220 34 (replace_cp 8216 39 (replace_cp 8217 39 s))))))"
  have "\<forall>c\<in>set (sub_ws ?e). c < 128"
    by (rule sub_ws_ascii) (rule encode_ascii_ignore_ascii)
  then have "\<forall>c\<in>set (strip (sub_ws ?e)). c < 128"
    using strip_subset by blast
  with False show ?thesis by (simp add: sanitize_ascii_def Let_def)
qed

lemma sanitize_ascii_single_spaced: "single_spaced (sanitize_ascii s)"
  by (simp add: sanitize_ascii_def Let_def strip_single_spaced sub_ws_single_spaced)

lemma sanitize_ascii_ends:
  "sanitize_ascii s \<noteq> [] \<Longrightarrow>
     \<not> isspace (hd (sanitize_ascii s)) \<and> \<not> isspace (last (sanitize_ascii s))"
  by (auto simp: sanitize_ascii_def Let_def strip_hd strip_last split: if_splits)

lemma sanitize_ascii_fixed:
  assumes a: "\<forall>c\<in>set t. c < 128" and s: "single_spaced t"
    and e: "t \<noteq> [] \<longrightarrow> \<not> isspace (hd t) \<and> \<not> isspace (last t)"
  shows "sanitize_ascii t = t"
proof (cases "t = []")
  case True
  then show ?thesis by (simp add: sanitize_ascii_def)
next
  case False
  have r: "replace_cp old new t = t" if "128 \<le> old" for old new
    using a that by (intro replace_cp_id) auto
  have "replace_cp 8211 45 (replace_cp 8212 45 (replace_cp 8221 34
          (replace_cp 8220 34 (replace_cp 8216 39 (replace_cp 8217 39 t))))) = t"
    by (simp add: r)
  moreover have "encode_ascii_ignore t = t"
    using a by (rule encode_ascii_ignore_id)
  moreover have "sub_ws t = t"
    using s by (rule single_spaced_sub_ws_id)
  moreover have "strip t = t"
    using False e by (simp add: strip_id)
  ultimately show ?thesis
    using False by (simp add: sanitize_ascii_def Let_def)
qed

lemma single_spaced_nth:
  "single_spaced t \<Longrightarrow> Suc i < length t \<Longrightarrow> \<not> (isspace (t ! i) \<and> isspace (t ! Suc i))"
proof (induction t arbitrary: i rule: single_spaced.induct)
  case 1
  then show ?case by simp
next
  case (2 c)
  then show ?case by simp
next
  case (3 a b cs)
  then show ?case by (cases i) auto
qed

lemma single_spaced_space: "single_spaced t \<Longrightarrow> c \<in> set t \<Longrightarrow> isspace c \<Longrightarrow> c = 32"
  by (induction t rule: single_spaced.induct) auto

text \<open>
  C10. Sanitizing is idempotent, and a sanitized text is canonical: it holds ASCII
  code points only, neither starts nor ends with whitespace, has no two whitespace
  characters in a row, and its only whitespace character is the space.
\<close>

theorem sanitize_ascii_idempotent_canonical:
  "sanitize_ascii (sanitize_ascii s) = sanitize_ascii s
   \<and> (\<forall>c\<in>set (sanitize_ascii s). c < 128)
   \<and> (sanitize_ascii s \<noteq> [] \<longrightarrow>
        \<not> isspace (hd (sanitize_ascii s)) \<and> \<not> isspace (last (sanitize_ascii s)))
   \<and> (\<forall>i. Suc i < length (sanitize_ascii s) \<longrightarrow>
        \<not> (isspace (sanitize_ascii s ! i) \<and> isspace (sanitize_ascii s ! Suc i)))
   \<and> (\<forall>c\<in>set (sanitize_ascii s). isspace c \<longrightarrow> c = 32)"
proof -
  let ?t = "sanitize_ascii s"
  have a: "\<forall>c\<in>set ?t. c < 128" by (rule sanitize_ascii_ascii)
  have sp: "single_spaced ?t" by (rule sanitize_ascii_single_spaced)
  have e: "?t \<noteq> [] \<longrightarrow> \<not> isspace (hd ?t) \<and> \<not> isspace (last ?t)"
    using sanitize_ascii_ends by blast
  have "sanitize_ascii ?t = ?t"
    using a sp e by (rule sanitize_ascii_fixed)
  moreover have "\<forall>i. Suc i < length ?t \<longrightarrow> \<not> (isspace (?t ! i) \<and> isspace (?t ! Suc i))"
    using sp single_spaced_nth by blast
  moreover have "\<forall>c\<in>set ?t. isspace c \<longrightarrow> c = 32"
    using sp single_spaced_space by blast
  ultimately show ?thesis using a e by blast
qed

lemma sanitize_ascii_sample:
  "sanitize_ascii [32, 8217, 9, 10, 97, 233, 8212, 32] = [39, 32, 97, 45]"
  by (simp add: sanitize_ascii_def replace_cp_def encode_ascii_ignore_def strip_def
      isspace_def)

theorem sanitize_ascii_idempotent_canonical_witness:
  "sanitize_ascii [32, 8217, 9, 10, 97, 233, 8212, 32] = [39, 32, 97, 45]
   \<and> sanitize_ascii [39, 32, 97, 45] = [39, 32, 97, 45]
   \<and> 45 \<in> set (sanitize_ascii [32, 8217, 9, 10, 97, 233, 8212, 32]) \<and> (45::nat) < 128
   \<and> \<not> isspace (hd [39, 32, 97, 45]) \<and> \<not> isspace (last [39, 32, 97, 45])
   \<and> Suc 1 < length (sanitize_ascii [32, 8217, 9, 10, 97, 233, 8212, 32])
   \<and> \<not> (isspace ([39, 32, 97, 45] ! 1) \<and> isspace ([39, 32, 97, 45] ! Suc 1))
   \<and> 32 \<in> set (sanitize_ascii [32, 8217, 9, 10, 97, 233, 8212, 32]) \<and> isspace 32"
  using sanitize_ascii_idempotent_canonical [of "[32, 8217, 9, 10, 97, 233, 8212, 32]"]
  unfolding sanitize_ascii_sample by (simp add: isspace_def)

section \<open>Routing keys\<close>

lemma and_then_Inr [simp]: "and_then (Inr x) f = f x"
  by (simp add: and_then_def)

lemma and_then_Inl [simp]: "and_then (Inl e) f = Inl e"
  by (simp add: and_then_def)

lemma first_item_JStr:
  "first_item (JStr s) = (if s = [] then Inl IndexError else Inr (JStr [hd s]))"
  by (cases s) simp_all

lemma first_item_JList:
  "first_item (JList xs) = (if xs = [] then Inl IndexError else Inr (hd xs))"
  by (cases xs) simp_all

lemma detect_channel_dict:
  "detect_channel (JDict kvs) =
     Inr (if map_of kvs (lit ''object'') = Some (JStr (lit ''whatsapp_business_account''))
          then lit ''whatsapp''
          else if map_of kvs (lit ''object'') = Some (JStr (lit ''page'')) then lit ''messenger''
          else if map_of kvs (lit ''object'') = Some (JStr (lit ''instagram'')) then lit ''instagram''
          else lit ''unknown'')"
  by (auto simp: detect_channel_def lit_def split: option.splits)

lemma channel_names:
  "lit ''messenger'' \<noteq> lit ''whatsapp''" "lit ''instagram'' \<noteq> lit ''whatsapp''"
  "lit ''unknown'' \<noteq> lit ''whatsapp''"
  by (simp_all add: lit_def)

lemma body_id:
  "(case routing_key_body ch (JDict kvs) of Inl e \<Rightarrow> JNone | Inr key \<Rightarrow> key) =
     (if ch = lit ''whatsapp'' then 
        (case map_of kvs (lit ''entry'') of
           Some (JList (JDict entry # rest)) \<Rightarrow>
             (case map_of entry (lit ''changes'') of
                Some (JList (JDict change # rest')) \<Rightarrow>
                  (case map_of change (lit ''value'') of
                     Some (JDict val) \<Rightarrow>
                       (case map_of val (lit ''metadata'') of
                          Some (JDict meta) \<Rightarrow>
                            (case map_of meta (lit ''phone_number_id'') of
                               Some key \<Rightarrow> key
                             | None \<Rightarrow> JNone)
                        | _ \<Rightarrow> JNone)
                   | _ \<Rightarrow> JNone)
              | _ \<Rightarrow> JNone)
         | _ \<Rightarrow> JNone)
     else (case map_of kvs (lit ''entry'') of
           Some (JList (JDict entry # rest)) \<Rightarrow>
             (case map_of entry (lit ''id'') of Some key \<Rightarrow> key | None \<Rightarrow> JNone)
         | _ \<Rightarrow> JNone))"
  by (auto simp: routing_key_body_def py_or_def first_item_JStr split: option.splits json.splits list.splits pyfloat.splits)

text \<open>
  C7 (as amended). On every payload that is a dict, the declared type of the
  parameter, \<open>extract_routing_key\<close> raises nothing and returns the routing key of the
  specification: the \<open>phone_number_id\<close> at \<open>entry[0].changes[0].value.metadata\<close> of a
  whatsapp payload, the \<open>id\<close> of \<open>entry[0]\<close> for another channel, and \<open>None\<close> for
  any other shape below the top level.
\<close>

theorem extract_routing_key_dict:
  "extract_routing_key (JDict kvs) = Inr (routing_key_spec kvs)"
proof -
  obtain ch where ch: "detect_channel (JDict kvs) = Inr ch"
    and w: "ch = lit ''whatsapp'' \<longleftrightarrow> map_of kvs (lit ''object'') = Some (JStr (lit ''whatsapp_business_account''))"
    using detect_channel_dict [of kvs] channel_names by auto
  have "extract_routing_key (JDict kvs) = Inr (case routing_key_body ch (JDict kvs) of Inl e \<Rightarrow> JNone | Inr key \<Rightarrow> key)"
    by (simp add: extract_routing_key_def ch split: sum.splits)
  then show ?thesis
    unfolding body_id routing_key_spec_def using w by simp
qed

text \<open>
  C7 as stated fails on a payload that is not a dict: \<open>detect_channel\<close> runs before the
  \<open>try\<close>, and \<open>[].get\<close> raises \<open>AttributeError\<close>.
\<close>

theorem extract_routing_key_list_raises: "extract_routing_key (JList []) = Inl AttributeError"
  by (simp add: extract_routing_key_def detect_channel_def)

lemma extract_routing_key_sample: "extract_routing_key (JDict [(lit ''object'', JStr (lit ''whatsapp_business_account'')),
   (lit ''entry'', JList [JDict [(lit ''id'', JStr (lit ''77'')), (lit ''changes'', JList [JDict [(lit ''value'',
      JDict [(lit ''metadata'', JDict [(lit ''phone_number_id'', JStr (lit ''1055''))])])]])]])])
   = Inr (JStr (lit ''1055''))"
  by (simp add: extract_routing_key_def detect_channel_def routing_key_body_def py_or_def lit_def)


section \<open>The reply generator\<close>

lemma default_reply_sanitized: "sanitize_ascii default_reply = default_reply"
  by (simp add: default_reply_def lit_def sanitize_ascii_def replace_cp_def
      encode_ascii_ignore_def strip_def isspace_def)

lemma run_agent_stage:
  "snd (run_agent lower env backend message_text contact_name) =
     (if list_ex (\<lambda>k. contains (lower message_text) k) intent_keywords
      then lit ''qualified'' else lit ''new'')"
  by (simp add: run_agent_def Let_def split: option.splits sum.splits)

lemma run_agent_reply_sanitized:
  "\<exists>t. fst (run_agent lower env backend message_text contact_name) = sanitize_ascii t"
  by (auto simp: run_agent_def Let_def split: option.splits sum.splits)

text \<open>
  C8. When the backend is not configured (no API key, an empty one, or the client
  library missing) or the call raises, whatever the exception, \<open>run_agent\<close> returns the
  fixed default reply, which sanitization leaves as it is, with the stage of the
  keyword rule; it raises nothing, and its stage is the stage of any other run on the
  same text, one where the backend answers included.
\<close>

theorem run_agent_silent_fallback:
  assumes "OPENAI_API_KEY env = None \<or> OPENAI_API_KEY env = Some []
     \<or> \<not> openai_imported env
     \<or> (\<exists>key e. OPENAI_API_KEY env = Some key
           \<and> backend key (case OPENAI_MODEL env of None \<Rightarrow> lit ''gpt-5-mini'' | Some m \<Rightarrow> m)
                system_prompt (user_prompt message_text contact_name) = Inl e)"
  shows "run_agent lower env backend message_text contact_name =
           (default_reply,
            if list_ex (\<lambda>k. contains (lower message_text) k) intent_keywords
            then lit ''qualified'' else lit ''new'')
         \<and> sanitize_ascii default_reply = default_reply
         \<and> snd (run_agent lower env backend message_text contact_name) =
             snd (run_agent lower env' backend' message_text contact_name)"
proof -
  have "fst (run_agent lower env backend message_text contact_name) = default_reply"
    using assms
    by (auto simp: run_agent_def Let_def default_reply_sanitized
        split: option.splits sum.splits)
  with run_agent_stage [of lower env backend]
  have "run_agent lower env backend message_text contact_name =
           (default_reply,
            if list_ex (\<lambda>k. contains (lower message_text) k) intent_keywords
            then lit ''qualified'' else lit ''new'')"
    by (simp add: prod_eq_iff)
  then show ?thesis
    using run_agent_stage [of lower env' backend'] default_reply_sanitized
    by simp
qed

theorem run_agent_silent_fallback_witness:
  "OPENAI_API_KEY env_key = Some (lit ''sk-test'')
   \<and> backend_timeout (lit ''sk-test'') (lit ''gpt-5-mini'') system_prompt
        (user_prompt (lit ''What is the PRICE?'') None) = Inl APITimeoutError
   \<and> run_agent ascii_lower env_key backend_timeout (lit ''What is the PRICE?'') None
       = (default_reply, lit ''qualified'')
   \<and> snd (run_agent ascii_lower env_key backend_timeout (lit ''What is the PRICE?'') None)
       = snd (run_agent ascii_lower env_key backend_ok (lit ''What is the PRICE?'') None)
   \<and> fst (run_agent ascii_lower env_key backend_ok (lit ''What is the PRICE?'') None)
       = lit ''Sure, it is 2500.''"
  using run_agent_silent_fallback [of env_key backend_timeout "lit ''What is the PRICE?''"
      None ascii_lower env_key backend_ok]
  by (simp add: env_key_def backend_timeout_def backend_ok_def intent_keywords_def
      ascii_lower_def lit_def run_agent_def sanitize_ascii_def replace_cp_def
      encode_ascii_ignore_def strip_def isspace_def)

section \<open>The handler, step by step\<close>

subsection \<open>Fresh ids\<close>

lemma fold_max_ge: "(a::int) \<le> fold max xs a \<and> (\<forall>x\<in>set xs. x \<le> fold max xs a)"
proof (induction xs arbitrary: a)
  case Nil
  then show ?case by simp
next
  case (Cons x xs)
  from Cons [of "max x a"] show ?case by auto
qed

lemma next_id_greater: "i \<in> set ids \<Longrightarrow> i < next_id ids"
proof (cases ids)
  case Nil
  assume "i \<in> set ids"
  with Nil show ?thesis by simp
next
  case (Cons a rest)
  assume "i \<in> set ids"
  with Cons fold_max_ge [of a rest] have "i \<le> fold max rest a" by auto
  with Cons show ?thesis by (simp add: next_id_def)
qed

lemma next_id_fresh: "next_id ids \<notin> set ids"
  using next_id_greater by blast

subsection \<open>Queries\<close>

lemma greatest_id_None: "greatest_id ds = None \<longleftrightarrow> ds = []"
  by (cases ds) (auto split: option.splits)

lemma greatest_id_Some:
  "greatest_id ds = Some d \<Longrightarrow> d \<in> set ds \<and> (\<forall>e\<in>set ds. d_id e \<le> d_id d)"
proof (induction ds arbitrary: d)
  case Nil
  then show ?case by simp
next
  case (Cons a ds)
  show ?case
  proof (cases "greatest_id ds")
    case None
    then have "ds = []" by (simp add: greatest_id_None)
    with Cons.prems show ?thesis by simp
  next
    case (Some e)
    with Cons.IH have e: "e \<in> set ds" "\<forall>x\<in>set ds. d_id x \<le> d_id e" by auto
    from Some Cons.prems have d: "d = (if d_id e < d_id a then a else e)" by simp
    with e show ?thesis by (auto intro: order_trans)
  qed
qed

lemma greatest_id_map:
  "(\<And>d. d_id (f d) = d_id d) \<Longrightarrow> greatest_id (map f ds) = map_option f (greatest_id ds)"
  by (induction ds) (auto split: option.splits)

lemma find_contact_Some:
  "find_contact s t ch uid = Some c \<Longrightarrow>
     c \<in> set (contacts s) \<and> c_tenant_id c = t \<and> c_channel c = ch \<and> c_channel_user_id c = uid"
  by (auto simp: find_contact_def find_Some_iff)

lemma find_append_None: "find P xs = None \<Longrightarrow> find P (xs @ [x]) = (if P x then Some x else None)"
  by (induction xs) (auto split: if_splits)

lemma find_append_Some: "find P xs = Some y \<Longrightarrow> find P (xs @ zs) = Some y"
  by (induction xs) (auto split: if_splits)

lemma find_map: "(\<And>x. P (f x) = P x) \<Longrightarrow> find P (map f xs) = map_option f (find P xs)"
  by (induction xs) auto

subsection \<open>Resolving the contact\<close>

lemma resolve_contact_frame:
  "resolve_contact s t p = (c, s1, dirty) \<Longrightarrow> deals s1 = deals s \<and> messages s1 = messages s"
  by (auto simp: resolve_contact_def Let_def split: option.splits if_splits)

lemma resolve_contact_key:
  "resolve_contact s t p = (c, s1, dirty) \<Longrightarrow>
     c_tenant_id c = t \<and> c_channel c = p_channel p \<and> c_channel_user_id c = p_channel_user_id p"
  by (auto simp: resolve_contact_def Let_def split: option.splits if_splits
      dest: find_contact_Some)

lemma resolve_contact_found:
  assumes "resolve_contact s t p = (c, s1, dirty)"
  shows "find_contact s1 t (p_channel p) (p_channel_user_id p) = Some c"
proof (cases "find_contact s t (p_channel p) (p_channel_user_id p)")
  case None
  with assms show ?thesis
    by (auto simp: resolve_contact_def Let_def find_contact_def find_append_None)
next
  case (Some c0)
  show ?thesis
  proof (cases "str_truthy (p_contact_name p) \<and> \<not> str_truthy (c_contact_name c0)")
    case True
    with Some assms have c: "c = c0\<lparr>c_contact_name := p_contact_name p\<rparr>"
      and s1: "contacts s1 = map (\<lambda>x. if c_id x = c_id c0
                 then x\<lparr>c_contact_name := p_contact_name p\<rparr> else x) (contacts s)"
      by (auto simp: resolve_contact_def)
    let ?P = "\<lambda>x. c_tenant_id x = t \<and> c_channel x = p_channel p
                \<and> c_channel_user_id x = p_channel_user_id p"
    let ?f = "\<lambda>x. if c_id x = c_id c0 then x\<lparr>c_contact_name := p_contact_name p\<rparr> else x"
    have "find ?P (map ?f (contacts s)) = map_option ?f (find ?P (contacts s))"
      by (rule find_map) simp
    with Some s1 c show ?thesis by (simp add: find_contact_def)
  next
    case False
    with Some assms show ?thesis by (auto simp: resolve_contact_def)
  qed
qed

lemma resolve_contact_reuse:
  assumes "find_contact s t (p_channel p) (p_channel_user_id p) = Some c0"
  shows "c_id (fst (resolve_contact s t p)) = c_id c0
         \<and> length (contacts (fst (snd (resolve_contact s t p)))) = length (contacts s)"
  using assms by (simp add: resolve_contact_def)

lemma map_update_key:
  "map key (map (\<lambda>x. if key x = k then g x else x) xs) = map key xs"
  if "\<And>x. key (g x) = key x"
  using that by (induction xs) auto

lemma resolve_contact_ids:
  assumes "resolve_contact s t p = (c, s1, dirty)"
  shows "map c_id (contacts s1) = map c_id (contacts s)
         \<or> (map c_id (contacts s1) = map c_id (contacts s) @ [next_id (map c_id (contacts s))])"
proof (cases "find_contact s t (p_channel p) (p_channel_user_id p)")
  case None
  with assms show ?thesis by (auto simp: resolve_contact_def Let_def)
next
  case (Some c0)
  have "map c_id (map (\<lambda>x. if c_id x = c_id c0
          then x\<lparr>c_contact_name := p_contact_name p\<rparr> else x) (contacts s))
        = map c_id (contacts s)"
    by (rule map_update_key) simp
  with Some assms show ?thesis
    by (auto simp: resolve_contact_def split: if_splits)
qed

lemma resolve_contact_pk:
  assumes "resolve_contact s t p = (c, s1, dirty)" and "distinct (map c_id (contacts s))"
  shows "distinct (map c_id (contacts s1))"
  using resolve_contact_ids [OF assms(1)] assms(2) next_id_fresh [of "map c_id (contacts s)"]
  by auto

lemma resolve_contact_member:
  assumes "resolve_contact s t p = (c, s1, dirty)"
  shows "c \<in> set (contacts s1)"
  using resolve_contact_found [OF assms] by (auto dest: find_contact_Some)

lemma map_update_other:
  assumes "distinct (map key xs)" and "x0 \<in> set xs" and "\<not> Q x0"
    and "\<And>x. Q (g x) = Q x"
  shows "filter Q (map (\<lambda>x. if key x = key x0 then g x else x) xs) = filter Q xs"
proof -
  have "\<And>x. x \<in> set xs \<Longrightarrow> key x = key x0 \<Longrightarrow> x = x0"
    using assms(1,2) by (meson distinct_map inj_onD)
  hence k: "\<And>x. x \<in> set xs \<Longrightarrow> Q x \<Longrightarrow> key x \<noteq> key x0"
    using assms(3) by blast
  have "filter Q (map (\<lambda>x. if key x = key x0 then g x else x) ys) = filter Q ys"
    if "set ys \<subseteq> set xs" for ys
    using that k assms(4) by (induction ys) auto
  then show ?thesis by simp
qed

lemma resolve_contact_other_tenants:
  assumes "resolve_contact s t p = (c, s1, dirty)" and "distinct (map c_id (contacts s))"
  shows "filter (\<lambda>x. c_tenant_id x \<noteq> t) (contacts s1)
         = filter (\<lambda>x. c_tenant_id x \<noteq> t) (contacts s)"
proof (cases "find_contact s t (p_channel p) (p_channel_user_id p)")
  case None
  with assms show ?thesis by (auto simp: resolve_contact_def Let_def)
next
  case (Some c0)
  then have c0: "c0 \<in> set (contacts s)" "c_tenant_id c0 = t"
    by (auto dest: find_contact_Some)
  have "filter (\<lambda>x. c_tenant_id x \<noteq> t) (map (\<lambda>x. if c_id x = c_id c0
          then x\<lparr>c_contact_name := p_contact_name p\<rparr> else x) (contacts s))
        = filter (\<lambda>x. c_tenant_id x \<noteq> t) (contacts s)"
    using assms(2) c0
    by (intro map_update_other [where key = c_id and ?x0.0 = c0]) auto
  with Some assms show ?thesis
    by (auto simp: resolve_contact_def split: if_splits)
qed

subsection \<open>Appending a message\<close>

lemma add_message_simps:
  "contacts (add_message s t cid ch dir txt) = contacts s"
  "deals (add_message s t cid ch dir txt) = deals s"
  "messages (add_message s t cid ch dir txt) = messages s @ [new_message s t cid ch dir txt]"
  by (simp_all add: add_message_def)

lemma new_message_simps:
  "m_id (new_message s t cid ch dir txt) = next_id (map m_id (messages s))"
  "m_tenant_id (new_message s t cid ch dir txt) = t"
  "m_contact_id (new_message s t cid ch dir txt) = cid"
  "m_channel (new_message s t cid ch dir txt) = ch"
  "m_direction (new_message s t cid ch dir txt) = dir"
  "m_text (new_message s t cid ch dir txt) = txt"
  by (simp_all add: new_message_def)

lemma add_message_pk:
  "distinct (map m_id (messages s)) \<Longrightarrow>
   distinct (map m_id (messages (add_message s t cid ch dir txt)))"
  using next_id_fresh [of "map m_id (messages s)"]
  by (simp add: add_message_simps new_message_simps)

lemma find_open_deal_add_message:
  "find_open_deal (add_message s t cid ch dir txt) t' cid' = find_open_deal s t' cid'"
  by (simp add: find_open_deal_def open_deals_def add_message_simps)

lemma find_contact_add_message:
  "find_contact (add_message s t cid ch dir txt) t' ch' uid = find_contact s t' ch' uid"
  by (simp add: find_contact_def add_message_simps)

subsection \<open>Resolving the deal\<close>

lemma resolve_deal_frame:
  "resolve_deal s t cid = (d, s3, created) \<Longrightarrow>
     contacts s3 = contacts s \<and> messages s3 = messages s"
  by (auto simp: resolve_deal_def Let_def split: option.splits)

lemma find_open_deal_Some:
  "find_open_deal s t cid = Some d \<Longrightarrow>
     d \<in> set (open_deals s t cid) \<and> (\<forall>e\<in>set (open_deals s t cid). d_id e \<le> d_id d)"
  unfolding find_open_deal_def by (rule greatest_id_Some)

lemma open_deals_member:
  "d \<in> set (open_deals s t cid) \<longleftrightarrow>
     d \<in> set (deals s) \<and> d_tenant_id d = t \<and> d_contact_id d = cid \<and> d_status d = lit ''open''"
  by (auto simp: open_deals_def)

lemma resolve_deal_created:
  "resolve_deal s t cid = (d, s3, created) \<Longrightarrow>
     created = (open_deals s t cid = [])"
  by (auto simp: resolve_deal_def Let_def find_open_deal_def greatest_id_None
      split: option.splits)

lemma resolve_deal_new:
  assumes "resolve_deal s t cid = (d, s3, created)" and "open_deals s t cid = []"
  shows "d = \<lparr>d_id = next_id (map d_id (deals s)), d_tenant_id = t, d_contact_id = cid,
              d_stage = lit ''new'', d_status = lit ''open'', d_city = None,
              d_budget = None, d_notes = None\<rparr>
         \<and> deals s3 = deals s @ [d]"
  using assms by (auto simp: resolve_deal_def Let_def find_open_deal_def)

lemma resolve_deal_old:
  assumes "resolve_deal s t cid = (d, s3, created)" and "open_deals s t cid \<noteq> []"
  shows "s3 = s \<and> d \<in> set (open_deals s t cid)
         \<and> (\<forall>e\<in>set (open_deals s t cid). d_id e \<le> d_id d)"
proof -
  from assms(2) obtain d0 where d0: "find_open_deal s t cid = Some d0"
    by (cases "find_open_deal s t cid") (auto simp: find_open_deal_def greatest_id_None)
  with assms(1) have "d = d0" "s3 = s" by (auto simp: resolve_deal_def)
  with d0 show ?thesis by (auto dest: find_open_deal_Some)
qed

lemma resolve_deal_key:
  assumes "resolve_deal s t cid = (d, s3, created)"
  shows "d \<in> set (deals s3) \<and> d_tenant_id d = t \<and> d_contact_id d = cid
         \<and> d_status d = lit ''open''"
proof (cases "open_deals s t cid = []")
  case True
  with resolve_deal_new [OF assms] show ?thesis by auto
next
  case False
  with resolve_deal_old [OF assms] show ?thesis by (auto simp: open_deals_member)
qed

lemma resolve_deal_found:
  assumes "resolve_deal s t cid = (d, s3, created)"
  shows "find_open_deal s3 t cid = Some d"
proof (cases "open_deals s t cid = []")
  case True
  from resolve_deal_new [OF assms True] resolve_deal_key [OF assms] True
  have "open_deals s3 t cid = [d]"
    by (simp add: open_deals_def)
  then show ?thesis by (simp add: find_open_deal_def)
next
  case False
  then obtain d0 where d0: "find_open_deal s t cid = Some d0"
    by (cases "find_open_deal s t cid") (auto simp: find_open_deal_def greatest_id_None)
  with assms show ?thesis by (auto simp: resolve_deal_def)
qed

lemma resolve_deal_pk:
  assumes "resolve_deal s t cid = (d, s3, created)" and "distinct (map d_id (deals s))"
  shows "distinct (map d_id (deals s3))"
proof (cases "open_deals s t cid = []")
  case True
  from resolve_deal_new [OF assms(1) True] assms(2) next_id_fresh [of "map d_id (deals s)"]
  show ?thesis by auto
next
  case False
  with resolve_deal_old [OF assms(1)] assms(2) show ?thesis by simp
qed

lemma resolve_deal_one_open:
  assumes "resolve_deal s t cid = (d, s3, created)" and "one_open_deal s"
  shows "one_open_deal s3"
proof (cases "open_deals s t cid = []")
  case True
  then have "(t, cid) \<notin> (\<lambda>d. (d_tenant_id d, d_contact_id d)) `
               set (filter (\<lambda>d. d_status d = lit ''open'') (deals s))"
    by (auto simp: open_deals_def filter_empty_conv)
  with resolve_deal_new [OF assms(1) True] assms(2) show ?thesis
    by (auto simp: one_open_deal_def)
next
  case False
  with resolve_deal_old [OF assms(1)] assms(2) show ?thesis by simp
qed

lemma resolve_deal_other_tenants:
  assumes "resolve_deal s t cid = (d, s3, created)"
  shows "filter (\<lambda>x. d_tenant_id x \<noteq> t) (deals s3) = filter (\<lambda>x. d_tenant_id x \<noteq> t) (deals s)"
proof (cases "open_deals s t cid = []")
  case True
  from resolve_deal_new [OF assms True] show ?thesis by auto
next
  case False
  with resolve_deal_old [OF assms] show ?thesis by simp
qed

subsection \<open>Updating the stage\<close>

lemma set_stage_simps:
  "contacts (set_stage s i st) = contacts s"
  "messages (set_stage s i st) = messages s"
  "length (deals (set_stage s i st)) = length (deals s)"
  by (simp_all add: set_stage_def)

lemma set_stage_ids: "map d_id (deals (set_stage s i st)) = map d_id (deals s)"
proof -
  have "map d_id (map (\<lambda>d. if d_id d = i then d\<lparr>d_stage := st\<rparr> else d) (deals s))
        = map d_id (deals s)"
    by (rule map_update_key) simp
  then show ?thesis by (simp add: set_stage_def)
qed

lemma filter_open_update:
  fixes ds :: "deal list"
  shows "filter (\<lambda>d. d_tenant_id d = t \<and> d_contact_id d = cid \<and> d_status d = lit ''open'')
           (map (\<lambda>d. if d_id d = i then d\<lparr>d_stage := st\<rparr> else d) ds)
         = map (\<lambda>d. if d_id d = i then d\<lparr>d_stage := st\<rparr> else d)
             (filter (\<lambda>d. d_tenant_id d = t \<and> d_contact_id d = cid \<and> d_status d = lit ''open'') ds)"
  by (induction ds) auto

lemma set_stage_open_deals:
  "open_deals (set_stage s i st) t cid =
     map (\<lambda>d. if d_id d = i then d\<lparr>d_stage := st\<rparr> else d) (open_deals s t cid)"
  by (simp add: open_deals_def set_stage_def filter_open_update)

lemma set_stage_find_open_deal:
  "find_open_deal (set_stage s i st) t cid =
     map_option (\<lambda>d. if d_id d = i then d\<lparr>d_stage := st\<rparr> else d) (find_open_deal s t cid)"
  unfolding find_open_deal_def set_stage_open_deals
  by (rule greatest_id_map) simp

lemma open_keys_update:
  fixes ds :: "deal list"
  shows "map (\<lambda>d. (d_tenant_id d, d_contact_id d))
              (filter (\<lambda>d. d_status d = lit ''open'')
                 (map (\<lambda>d. if d_id d = i then d\<lparr>d_stage := st\<rparr> else d) ds))
        = map (\<lambda>d. (d_tenant_id d, d_contact_id d))
              (filter (\<lambda>d. d_status d = lit ''open'') ds)"
  by (induction ds) auto

lemma set_stage_one_open: "one_open_deal (set_stage s i st) = one_open_deal s"
  by (simp add: one_open_deal_def set_stage_def open_keys_update)

lemma set_stage_other_tenants:
  assumes "distinct (map d_id (deals s))" and "d \<in> set (deals s)" and "d_tenant_id d = t"
  shows "filter (\<lambda>x. d_tenant_id x \<noteq> t) (deals (set_stage s (d_id d) st))
         = filter (\<lambda>x. d_tenant_id x \<noteq> t) (deals s)"
proof -
  have "filter (\<lambda>x. d_tenant_id x \<noteq> t)
          (map (\<lambda>x. if d_id x = d_id d then x\<lparr>d_stage := st\<rparr> else x) (deals s))
        = filter (\<lambda>x. d_tenant_id x \<noteq> t) (deals s)"
    using assms
    by (intro map_update_other [where key = d_id and ?x0.0 = d]) auto
  then show ?thesis by (simp add: set_stage_def)
qed

lemma set_stage_stored:
  assumes "x \<in> set (deals (set_stage s i st))" and "d_id x = i"
  shows "d_stage x = st"
proof -
  from assms(1) have "x \<in> (\<lambda>y. if d_id y = i then y\<lparr>d_stage := st\<rparr> else y) ` set (deals s)"
    by (simp add: set_stage_def)
  then obtain y where y: "x = (if d_id y = i then y\<lparr>d_stage := st\<rparr> else y)"
    by (rule imageE)
  show ?thesis
  proof (cases "d_id y = i")
    case True
    with y show ?thesis by simp
  next
    case False
    with y assms(2) show ?thesis by simp
  qed
qed

subsection \<open>The whole handler\<close>

lemma simulate_no_tenant:
  "u_tenant_id u = None \<Longrightarrow> simulate lower fails s0 u p = (Inl (HTTPException 400), s0)"
  by (simp add: simulate_def)

lemma simulate_unfold:
  assumes "u_tenant_id u = Some t"
    and "resolve_contact s0 t p = (c, s1, dirty)"
    and "s2 = add_message s1 t (c_id c) (p_channel p) (lit ''in'') (p_text p)"
    and "resolve_deal s2 t (c_id c) = (d, s3, created)"
    and "reply = (if has_price_or_rate (lower (p_text p)) then reply_price else reply_other)"
    and "stage = (if has_price_or_rate (lower (p_text p)) then lit ''qualified''
                  else if d_stage d = [] then lit ''new'' else d_stage d)"
    and "s4 = set_stage s3 (d_id d) stage"
    and "s5 = add_message s4 t (c_id c) (p_channel p) (lit ''out'') reply"
  shows "simulate lower fails s0 u p =
     (if dirty \<and> fails CommitContact then (Inl PersistenceError, s0)
      else if fails CommitInbound then (Inl PersistenceError, s1)
      else if created \<and> fails CommitDeal then (Inl PersistenceError, s2)
      else if fails CommitStage then (Inl PersistenceError, s3)
      else if fails CommitOutbound then (Inl PersistenceError, s4)
      else (Inr \<lparr>r_ok = True, r_reply = reply, r_stage = stage, r_contact = c,
                 r_deal = d\<rparr>, s5))"
  using assms by (simp add: simulate_def Let_def)

lemma simulate_Inr:
  assumes "simulate lower fails s0 u p = (Inr r, s')"
  obtains t c s1 dirty d s3 created where
    "u_tenant_id u = Some t"
    "resolve_contact s0 t p = (c, s1, dirty)"
    "resolve_deal (add_message s1 t (c_id c) (p_channel p) (lit ''in'') (p_text p)) t (c_id c)
       = (d, s3, created)"
    "r = \<lparr>r_ok = True,
          r_reply = (if has_price_or_rate (lower (p_text p)) then reply_price else reply_other),
          r_stage = (if has_price_or_rate (lower (p_text p)) then lit ''qualified''
                     else if d_stage d = [] then lit ''new'' else d_stage d),
          r_contact = c, r_deal = d\<rparr>"
    "s' = add_message (set_stage s3 (d_id d) (r_stage r)) t (c_id c) (p_channel p)
            (lit ''out'') (r_reply r)"
proof -
  from assms obtain t where t: "u_tenant_id u = Some t"
    by (cases "u_tenant_id u") (auto simp: simulate_def)
  obtain c s1 dirty where rc: "resolve_contact s0 t p = (c, s1, dirty)"
    by (cases "resolve_contact s0 t p") auto
  obtain d s3 created where rd:
    "resolve_deal (add_message s1 t (c_id c) (p_channel p) (lit ''in'') (p_text p)) t (c_id c)
       = (d, s3, created)"
    by (cases "resolve_deal (add_message s1 t (c_id c) (p_channel p) (lit ''in'') (p_text p))
                 t (c_id c)") auto
  from assms simulate_unfold [OF t rc refl rd refl refl refl refl, of lower fails]
  have "r = \<lparr>r_ok = True,
          r_reply = (if has_price_or_rate (lower (p_text p)) then reply_price else reply_other),
          r_stage = (if has_price_or_rate (lower (p_text p)) then lit ''qualified''
                     else if d_stage d = [] then lit ''new'' else d_stage d),
          r_contact = c, r_deal = d\<rparr>
     \<and> s' = add_message (set_stage s3 (d_id d) (if has_price_or_rate (lower (p_text p)) then lit ''qualified''
                     else if d_stage d = [] then lit ''new'' else d_stage d)) t (c_id c) (p_channel p)
            (lit ''out'') (if has_price_or_rate (lower (p_text p)) then reply_price else reply_other)"
    by (simp split: if_splits)
  then show thesis
    using that [OF t rc rd] by simp
qed

text \<open>The database a call leaves, whatever its outcome.\<close>

lemma simulate_states:
  assumes "simulate lower fails s0 u p = (res, s')"
  shows "s' = s0 \<or>
    (\<exists>t c s1 dirty. u_tenant_id u = Some t \<and> resolve_contact s0 t p = (c, s1, dirty) \<and>
      (s' = s1 \<or> s' = add_message s1 t (c_id c) (p_channel p) (lit ''in'') (p_text p) \<or>
       (\<exists>d s3 created st.
          resolve_deal (add_message s1 t (c_id c) (p_channel p) (lit ''in'') (p_text p)) t (c_id c)
            = (d, s3, created) \<and>
          (s' = s3 \<or> s' = set_stage s3 (d_id d) st \<or>
           (\<exists>reply. s' = add_message (set_stage s3 (d_id d) st) t (c_id c) (p_channel p)
                          (lit ''out'') reply)))))"
proof (cases "u_tenant_id u")
  case None
  with assms show ?thesis by (simp add: simulate_def)
next
  case (Some t)
  obtain c s1 dirty where rc: "resolve_contact s0 t p = (c, s1, dirty)"
    by (cases "resolve_contact s0 t p") auto
  obtain d s3 created where rd:
    "resolve_deal (add_message s1 t (c_id c) (p_channel p) (lit ''in'') (p_text p)) t (c_id c)
       = (d, s3, created)"
    by (cases "resolve_deal (add_message s1 t (c_id c) (p_channel p) (lit ''in'') (p_text p))
                 t (c_id c)") auto
  from assms simulate_unfold [OF Some rc refl rd refl refl refl refl, of lower fails]
  show ?thesis
    using Some rc rd by (auto split: if_splits)
qed

subsection \<open>Invariants of the tables\<close>

lemma resolve_contact_pk_ok:
  "resolve_contact s t p = (c, s1, dirty) \<Longrightarrow> pk_ok s \<Longrightarrow> pk_ok s1"
  using resolve_contact_pk [of s t p c s1 dirty] resolve_contact_frame [of s t p c s1 dirty]
  by (simp add: pk_ok_def)

lemma add_message_pk_ok: "pk_ok s \<Longrightarrow> pk_ok (add_message s t cid ch dir txt)"
  using add_message_pk [of s t cid ch dir "txt"]
  by (simp add: pk_ok_def add_message_simps)

lemma resolve_deal_pk_ok:
  "resolve_deal s t cid = (d, s3, created) \<Longrightarrow> pk_ok s \<Longrightarrow> pk_ok s3"
  using resolve_deal_pk [of s t cid d s3 created] resolve_deal_frame [of s t cid d s3 created]
  by (simp add: pk_ok_def)

lemma set_stage_pk_ok: "pk_ok s \<Longrightarrow> pk_ok (set_stage s i st)"
  by (simp add: pk_ok_def set_stage_simps set_stage_ids)

lemma simulate_preserves:
  assumes run: "simulate lower fails s0 u p = (res, s')" and "I s0"
    and rc: "\<And>s t c s1 dirty. resolve_contact s t p = (c, s1, dirty) \<Longrightarrow> I s \<Longrightarrow> I s1"
    and am: "\<And>s t cid ch dir txt. I s \<Longrightarrow> I (add_message s t cid ch dir txt)"
    and rd: "\<And>s t cid d s3 created. resolve_deal s t cid = (d, s3, created) \<Longrightarrow> I s \<Longrightarrow> I s3"
    and ss: "\<And>s i st. I s \<Longrightarrow> I (set_stage s i st)"
  shows "I s'"
proof -
  from simulate_states [OF run] consider "s' = s0"
    | t c s1 dirty where "resolve_contact s0 t p = (c, s1, dirty)"
        "s' = s1 \<or> s' = add_message s1 t (c_id c) (p_channel p) (lit ''in'') (p_text p)"
    | t c s1 dirty d s3 created st where "resolve_contact s0 t p = (c, s1, dirty)"
        "resolve_deal (add_message s1 t (c_id c) (p_channel p) (lit ''in'') (p_text p)) t (c_id c)
           = (d, s3, created)"
        "s' = s3 \<or> s' = set_stage s3 (d_id d) st \<or>
           (\<exists>reply. s' = add_message (set_stage s3 (d_id d) st) t (c_id c) (p_channel p)
                          (lit ''out'') reply)"
    by blast
  then show ?thesis
  proof cases
    case 1
    with \<open>I s0\<close> show ?thesis by simp
  next
    case 2
    from rc [OF 2(1) \<open>I s0\<close>] have "I s1" .
    with 2(2) am show ?thesis by auto
  next
    case 3
    from rc [OF 3(1) \<open>I s0\<close>] have "I s1" .
    then have "I (add_message s1 t (c_id c) (p_channel p) (lit ''in'') (p_text p))"
      by (rule am)
    with rd [OF 3(2)] have s3: "I s3" .
    then have "I (set_stage s3 (d_id d) st)" by (rule ss)
    with s3 3(3) am show ?thesis by auto
  qed
qed

lemma simulate_pk_ok:
  assumes "simulate lower fails s0 u p = (res, s')" and "pk_ok s0"
  shows "pk_ok s'"
  using assms
  by (rule simulate_preserves)
     (auto intro: resolve_contact_pk_ok add_message_pk_ok resolve_deal_pk_ok set_stage_pk_ok)

lemma resolve_contact_one_open:
  "resolve_contact s t p = (c, s1, dirty) \<Longrightarrow> one_open_deal s \<Longrightarrow> one_open_deal s1"
  using resolve_contact_frame [of s t p c s1 dirty] by (simp add: one_open_deal_def)

lemma add_message_one_open:
  "one_open_deal s \<Longrightarrow> one_open_deal (add_message s t cid ch dir txt)"
  by (simp add: one_open_deal_def add_message_simps)

lemma simulate_one_open:
  assumes "simulate lower fails s0 u p = (res, s')" and "one_open_deal s0"
  shows "one_open_deal s'"
  using assms
  by (rule simulate_preserves)
     (auto intro: resolve_contact_one_open add_message_one_open resolve_deal_one_open
        simp: set_stage_one_open)

text \<open>What \<open>one_open_deal\<close> says, row by row.\<close>

lemma distinct_map_filter_length:
  "distinct (map f xs) \<Longrightarrow> length (filter (\<lambda>x. f x = k) xs) \<le> 1"
  by (induction xs) (auto simp: filter_empty_conv image_iff)

lemma one_open_deal_length:
  assumes "one_open_deal s"
  shows "length (open_deals s t cid) \<le> 1"
proof -
  have "open_deals s t cid =
          filter (\<lambda>d. (d_tenant_id d, d_contact_id d) = (t, cid))
            (filter (\<lambda>d. d_status d = lit ''open'') (deals s))"
    by (auto simp: open_deals_def intro: filter_cong)
  moreover have "length (filter (\<lambda>d. (d_tenant_id d, d_contact_id d) = (t, cid))
            (filter (\<lambda>d. d_status d = lit ''open'') (deals s))) \<le> 1"
    using assms unfolding one_open_deal_def by (rule distinct_map_filter_length)
  ultimately show ?thesis by simp
qed

subsection \<open>Sample runs\<close>

lemmas run_defs = simulate_def resolve_contact_def find_contact_def resolve_deal_def
  find_open_deal_def open_deals_def add_message_def new_message_def set_stage_def next_id_def
  has_price_or_rate_def ascii_lower_def lit_def reply_price_def reply_other_def Let_def
  no_faults_def fault_at_def db_empty_def agent1_def agent2_def msg_price_def msg_ok_def
  contact1_def deal1_def msg_in1_def msg_out1_def db_first_def db_order_def

lemma first_run:
  "simulate ascii_lower no_faults db_empty agent1 msg_price =
     (Inr \<lparr>r_ok = True, r_reply = reply_price, r_stage = lit ''qualified'',
           r_contact = contact1, r_deal = deal1 (lit ''new'')\<rparr>, db_first)"
  by (simp add: run_defs)

lemma second_run:
  "simulate ascii_lower no_faults db_first agent1 msg_ok =
     (Inr \<lparr>r_ok = True, r_reply = reply_other, r_stage = lit ''qualified'',
           r_contact = contact1, r_deal = deal1 (lit ''qualified'')\<rparr>,
      db_first\<lparr>messages := [msg_in1, msg_out1,
         \<lparr>m_id = 3, m_tenant_id = 1, m_contact_id = 1, m_channel = lit ''whatsapp'',
               m_direction = lit ''in'', m_text = lit ''ok''\<rparr>,
         \<lparr>m_id = 4, m_tenant_id = 1, m_contact_id = 1, m_channel = lit ''whatsapp'',
               m_direction = lit ''out'', m_text = reply_other\<rparr>]\<rparr>)"
  by (simp add: run_defs)

lemma order_run:
  "simulate ascii_lower no_faults db_order agent1 msg_price =
     (Inr \<lparr>r_ok = True, r_reply = reply_price, r_stage = lit ''qualified'',
           r_contact = contact1, r_deal = deal1 (lit ''order'')\<rparr>,
      \<lparr>contacts = [contact1], deals = [deal1 (lit ''qualified'')],
                messages = [msg_in1, msg_out1]\<rparr>)"
  by (simp add: run_defs)

lemma outbound_fault_run:
  "simulate ascii_lower (fault_at CommitOutbound) db_empty agent1 msg_price =
     (Inl PersistenceError, db_first\<lparr>messages := [msg_in1]\<rparr>)"
  by (simp add: run_defs)

section \<open>Properties of the handler\<close>

lemma find_open_deal_cong: "deals s = deals s' \<Longrightarrow> find_open_deal s t cid = find_open_deal s' t cid"
  by (simp add: find_open_deal_def open_deals_def)

lemma open_deals_cong: "deals s = deals s' \<Longrightarrow> open_deals s t cid = open_deals s' t cid"
  by (simp add: open_deals_def)

lemma find_contact_cong:
  "contacts s = contacts s' \<Longrightarrow> find_contact s t ch uid = find_contact s' t ch uid"
  by (simp add: find_contact_def)

text \<open>
  C2 (as amended). Calls handled one after the other, each to its end before the next
  begins: a call, completed or not, keeps the invariant that no contact of a tenant
  has two open deals. A completed call creates a deal, with stage \<open>new\<close>, status
  \<open>open\<close> and an id that no deal had, exactly when the contact has no open deal;
  otherwise it adds no row and works on the open deal of the contact with the greatest
  id, however many there are.
\<close>

theorem simulate_one_open_deal:
  assumes "simulate lower fails s0 u p = (res, s')"
  shows "(one_open_deal s0 \<longrightarrow>
            one_open_deal s' \<and> (\<forall>t cid. length (open_deals s' t cid) \<le> 1))
         \<and> (\<forall>r. res = Inr r \<longrightarrow>
              (if open_deals s0 (c_tenant_id (r_contact r)) (c_id (r_contact r)) = []
               then r_deal r = \<lparr>d_id = d_id (r_deal r),
                                 d_tenant_id = c_tenant_id (r_contact r),
                                 d_contact_id = c_id (r_contact r),
                                 d_stage = lit ''new'', d_status = lit ''open'',
                                 d_city = None, d_budget = None, d_notes = None\<rparr>
                    \<and> d_id (r_deal r) \<notin> set (map d_id (deals s0))
                    \<and> map d_id (deals s') = map d_id (deals s0) @ [d_id (r_deal r)]
               else r_deal r \<in> set (open_deals s0 (c_tenant_id (r_contact r))
                                       (c_id (r_contact r)))
                    \<and> (\<forall>e\<in>set (open_deals s0 (c_tenant_id (r_contact r))
                                       (c_id (r_contact r))). d_id e \<le> d_id (r_deal r))
                    \<and> map d_id (deals s') = map d_id (deals s0)))"
proof (intro conjI impI allI)
  assume "one_open_deal s0"
  with assms show "one_open_deal s'" by (rule simulate_one_open)
  then show "length (open_deals s' t cid) \<le> 1" for t cid
    by (rule one_open_deal_length)
next
  fix r
  assume "res = Inr r"
  with assms have "simulate lower fails s0 u p = (Inr r, s')" by simp
  then obtain t c s1 dirty d s3 created where
    rc: "resolve_contact s0 t p = (c, s1, dirty)"
    and rd: "resolve_deal (add_message s1 t (c_id c) (p_channel p) (lit ''in'') (p_text p))
               t (c_id c) = (d, s3, created)"
    and r: "r_contact r = c" "r_deal r = d"
    and s': "s' = add_message (set_stage s3 (d_id d) (r_stage r)) t (c_id c) (p_channel p)
                    (lit ''out'') (r_reply r)"
    by (rule simulate_Inr) simp
  let ?s2 = "add_message s1 t (c_id c) (p_channel p) (lit ''in'') (p_text p)"
  from rc have t: "c_tenant_id c = t" by (simp add: resolve_contact_key)
  from rc have d2: "deals ?s2 = deals s0"
    by (simp add: add_message_simps resolve_contact_frame)
  then have od: "open_deals ?s2 t (c_id c) = open_deals s0 t (c_id c)"
    by (rule open_deals_cong)
  have ids: "map d_id (deals s') = map d_id (deals s3)"
    by (simp add: s' add_message_simps set_stage_ids)
  show "if open_deals s0 (c_tenant_id (r_contact r)) (c_id (r_contact r)) = []
        then r_deal r = \<lparr>d_id = d_id (r_deal r),
                          d_tenant_id = c_tenant_id (r_contact r),
                          d_contact_id = c_id (r_contact r),
                          d_stage = lit ''new'', d_status = lit ''open'',
                          d_city = None, d_budget = None, d_notes = None\<rparr>
             \<and> d_id (r_deal r) \<notin> set (map d_id (deals s0))
             \<and> map d_id (deals s') = map d_id (deals s0) @ [d_id (r_deal r)]
        else r_deal r \<in> set (open_deals s0 (c_tenant_id (r_contact r)) (c_id (r_contact r)))
             \<and> (\<forall>e\<in>set (open_deals s0 (c_tenant_id (r_contact r)) (c_id (r_contact r))).
                    d_id e \<le> d_id (r_deal r))
             \<and> map d_id (deals s') = map d_id (deals s0)"
  proof (cases "open_deals s0 t (c_id c) = []")
    case True
    with od have "open_deals ?s2 t (c_id c) = []" by simp
    from resolve_deal_new [OF rd this] d2
    have d: "d = \<lparr>d_id = next_id (map d_id (deals s0)), d_tenant_id = t,
                   d_contact_id = c_id c, d_stage = lit ''new'', d_status = lit ''open'',
                   d_city = None, d_budget = None, d_notes = None\<rparr>"
      and d3: "deals s3 = deals s0 @ [d]" by simp_all
    from d have did: "d_id d = next_id (map d_id (deals s0))" by simp
    with next_id_fresh [of "map d_id (deals s0)"]
    have "d_id d \<notin> set (map d_id (deals s0))" by simp
    moreover from d have "d = \<lparr>d_id = d_id d, d_tenant_id = t,
                   d_contact_id = c_id c, d_stage = lit ''new'', d_status = lit ''open'',
                   d_city = None, d_budget = None, d_notes = None\<rparr>" by simp
    ultimately show ?thesis using True ids r t d3 by simp
  next
    case False
    with od have "open_deals ?s2 t (c_id c) \<noteq> []" by simp
    from resolve_deal_old [OF rd this] od d2 False ids r t show ?thesis by simp
  qed
qed

lemma two_open_run:
  "simulate ascii_lower no_faults db_two_open agent1 msg_ok =
     (Inr \<lparr>r_ok = True, r_reply = reply_other, r_stage = lit ''new'',
           r_contact = contact1, r_deal = deal3\<rparr>,
      db_two_open\<lparr>messages :=
        [\<lparr>m_id = 1, m_tenant_id = 1, m_contact_id = 1, m_channel = lit ''whatsapp'',
               m_direction = lit ''in'', m_text = lit ''ok''\<rparr>,
         \<lparr>m_id = 2, m_tenant_id = 1, m_contact_id = 1, m_channel = lit ''whatsapp'',
               m_direction = lit ''out'', m_text = reply_other\<rparr>]\<rparr>)"
  by (simp add: run_defs deal3_def db_two_open_def)

theorem simulate_one_open_deal_witness:
  "simulate ascii_lower no_faults db_empty agent1 msg_price =
     (Inr \<lparr>r_ok = True, r_reply = reply_price, r_stage = lit ''qualified'',
           r_contact = contact1, r_deal = deal1 (lit ''new'')\<rparr>, db_first)
   \<and> one_open_deal db_empty \<and> one_open_deal db_first
   \<and> length (open_deals db_first 1 1) \<le> 1
   \<and> open_deals db_empty 1 1 = []
   \<and> d_id (deal1 (lit ''new'')) \<notin> set (map d_id (deals db_empty))
   \<and> map d_id (deals db_first) = map d_id (deals db_empty) @ [1]
   \<and> open_deals db_two_open 1 1 = [deal3, deal1 (lit ''qualified'')]
   \<and> r_deal (projr (fst (simulate ascii_lower no_faults db_two_open agent1 msg_ok))) = deal3
   \<and> d_id (deal1 (lit ''qualified'')) \<le> d_id deal3
   \<and> map d_id (deals (snd (simulate ascii_lower no_faults db_two_open agent1 msg_ok)))
       = map d_id (deals db_two_open)"
  using simulate_one_open_deal [OF first_run] simulate_one_open_deal [OF two_open_run]
  by (simp add: first_run two_open_run)
     (simp add: one_open_deal_def open_deals_def db_empty_def db_first_def db_two_open_def
        contact1_def deal1_def deal3_def lit_def)

text \<open>
  C2 as stated fails when two requests overlap. The contact has no deal; each request
  stores its inbound message and finds no open deal before the other inserts one
  (\<open>main.py\<close> 398-405), then each inserts a deal (406-415). Both requests return and
  the contact has two open deals.
\<close>

theorem interleaved_two_open_deals:
  "one_open_deal db_contact
   \<and> fst (interleave ascii_lower race_schedule db_contact
            [start 1 msg_price, start 1 msg_ok]) = db_race
   \<and> map q_pc (snd (interleave ascii_lower race_schedule db_contact
                      [start 1 msg_price, start 1 msg_ok])) = [Returned, Returned]
   \<and> open_deals db_race 1 1 = [deal1 (lit ''qualified''), deal_race]
   \<and> \<not> one_open_deal db_race"
  by (simp add: race_schedule_def start_def step_def find_contact_def find_open_deal_def
      open_deals_def add_message_def new_message_def set_stage_def next_id_def
      has_price_or_rate_def ascii_lower_def lit_def reply_price_def reply_other_def Let_def
      msg_price_def msg_ok_def contact1_def deal1_def msg_in1_def db_contact_def
      deal_race_def db_race_def one_open_deal_def)

lemma fold_max_snoc: "fold max (xs @ [n]) (a::int) = max n (fold max xs a)"
  by simp

lemma next_id_snoc: "next_id (ids @ [next_id ids]) = next_id ids + 1"
proof (cases ids)
  case Nil
  then show ?thesis by (simp add: next_id_def)
next
  case (Cons a rest)
  from fold_max_ge [of a rest] have "fold max rest a < next_id ids"
    using Cons by (simp add: next_id_def)
  then have "max (next_id ids) (fold max rest a) = next_id ids" by simp
  with Cons show ?thesis by (simp add: next_id_def)
qed

lemma simulate_messages_prefix:
  assumes "simulate lower fails s0 u p = (res, s')"
  shows "\<exists>ms. messages s' = messages s0 @ ms"
  using assms
proof (rule simulate_preserves)
  show "\<exists>ms. messages s0 = messages s0 @ ms" by simp
next
  fix s t c s1 dirty
  assume "resolve_contact s t p = (c, s1, dirty)" "\<exists>ms. messages s = messages s0 @ ms"
  then show "\<exists>ms. messages s1 = messages s0 @ ms"
    by (simp add: resolve_contact_frame)
next
  fix s :: db and t cid ch dir body
  assume "\<exists>ms. messages s = messages s0 @ ms"
  then show "\<exists>ms. messages (add_message s t cid ch dir body) = messages s0 @ ms"
    by (auto simp: add_message_simps)
next
  fix s t cid d s3 created
  assume "resolve_deal s t cid = (d, s3, created)" "\<exists>ms. messages s = messages s0 @ ms"
  then show "\<exists>ms. messages s3 = messages s0 @ ms"
    by (simp add: resolve_deal_frame)
next
  fix s :: db and i st
  assume "\<exists>ms. messages s = messages s0 @ ms"
  then show "\<exists>ms. messages (set_stage s i st) = messages s0 @ ms"
    by (simp add: set_stage_simps)
qed

text \<open>
  The messages of a completed call, with the ids that \<open>next_id\<close> gives them.
\<close>

lemma simulate_messages_appended:
  assumes "simulate lower fails s0 u p = (res, s')"
  shows "(\<exists>ms. messages s' = messages s0 @ ms)
     \<and> (\<forall>r. res = Inr r \<longrightarrow>
           u_tenant_id u = Some (c_tenant_id (r_contact r))
           \<and> messages s' = messages s0 @
               [\<lparr>m_id = next_id (map m_id (messages s0)),
                 m_tenant_id = c_tenant_id (r_contact r),
                 m_contact_id = c_id (r_contact r), m_channel = p_channel p,
                 m_direction = lit ''in'', m_text = p_text p\<rparr>,
                \<lparr>m_id = next_id (map m_id (messages s0)) + 1,
                 m_tenant_id = c_tenant_id (r_contact r),
                 m_contact_id = c_id (r_contact r), m_channel = p_channel p,
                 m_direction = lit ''out'', m_text = r_reply r\<rparr>])"
proof (intro conjI allI impI)
  from assms show "\<exists>ms. messages s' = messages s0 @ ms"
    by (rule simulate_messages_prefix)
next
  fix r
  assume "res = Inr r"
  with assms have "simulate lower fails s0 u p = (Inr r, s')" by simp
  then obtain t c s1 dirty d s3 created where
    t: "u_tenant_id u = Some t"
    and rc: "resolve_contact s0 t p = (c, s1, dirty)"
    and rd: "resolve_deal (add_message s1 t (c_id c) (p_channel p) (lit ''in'') (p_text p))
               t (c_id c) = (d, s3, created)"
    and r: "r_contact r = c"
    and s': "s' = add_message (set_stage s3 (d_id d) (r_stage r)) t (c_id c) (p_channel p)
                    (lit ''out'') (r_reply r)"
    by (rule simulate_Inr) simp
  from rc have ct: "c_tenant_id c = t" by (simp add: resolve_contact_key)
  with t r show "u_tenant_id u = Some (c_tenant_id (r_contact r))" by simp
  let ?s2 = "add_message s1 t (c_id c) (p_channel p) (lit ''in'') (p_text p)"
  from rc have m1: "messages s1 = messages s0" by (simp add: resolve_contact_frame)
  have m2: "messages ?s2 = messages s0 @ [new_message s1 t (c_id c) (p_channel p) (lit ''in'') (p_text p)]"
    by (simp add: add_message_simps m1)
  from rd have m3: "messages s3 = messages ?s2" by (simp add: resolve_deal_frame)
  have m4: "messages (set_stage s3 (d_id d) (r_stage r)) = messages s3"
    by (simp add: set_stage_simps)
  have "next_id (map m_id (messages (set_stage s3 (d_id d) (r_stage r))))
          = next_id (map m_id (messages s0)) + 1"
    by (simp add: m4 m3 m2 m1 new_message_def next_id_snoc)
  then show "messages s' = messages s0 @
               [\<lparr>m_id = next_id (map m_id (messages s0)),
                 m_tenant_id = c_tenant_id (r_contact r),
                 m_contact_id = c_id (r_contact r), m_channel = p_channel p,
                 m_direction = lit ''in'', m_text = p_text p\<rparr>,
                \<lparr>m_id = next_id (map m_id (messages s0)) + 1,
                 m_tenant_id = c_tenant_id (r_contact r),
                 m_contact_id = c_id (r_contact r), m_channel = p_channel p,
                 m_direction = lit ''out'', m_text = r_reply r\<rparr>]"
    by (simp add: s' add_message_simps m4 m3 m2 m1 new_message_def r ct)
qed

lemma fold_max_in: "fold max xs (a::int) \<in> set (a # xs)"
proof (induction xs arbitrary: a)
  case Nil
  then show ?case by simp
next
  case (Cons x xs)
  from Cons [of "max x a"] show ?case by (auto simp: max_def split: if_splits)
qed

lemma next_id_bounded:
  assumes "\<forall>k\<in>set ids. k < b" and "0 < b"
  shows "next_id ids \<le> b"
proof (cases ids)
  case Nil
  with assms(2) show ?thesis by (simp add: next_id_def)
next
  case (Cons a rest)
  from fold_max_in [of rest a] assms(1) Cons have "fold max rest a < b" by auto
  with Cons show ?thesis by (simp add: next_id_def)
qed

text \<open>
  C9. A completed call appends exactly two message rows to the ledger, both for the
  tenant of the user and the resolved contact: first the inbound text with direction
  \<open>in\<close>, then the reply with direction \<open>out\<close>, each with an id that no message had.
  While the ids of the table leave room below the last rowid, these are the next two
  ids, one and two more than the greatest id of the table. No call, completed or not, changes or removes a message that
  was there before.
\<close>

theorem simulate_ledger_append:
  assumes "simulate lower fails s0 u p = (res, s')"
  shows "(\<exists>ms. messages s' = messages s0 @ ms)
     \<and> (\<forall>r. res = Inr r \<longrightarrow>
           u_tenant_id u = Some (c_tenant_id (r_contact r))
           \<and> (\<exists>i j. messages s' = messages s0 @
                 [\<lparr>m_id = i, m_tenant_id = c_tenant_id (r_contact r),
                   m_contact_id = c_id (r_contact r), m_channel = p_channel p,
                   m_direction = lit ''in'', m_text = p_text p\<rparr>,
                  \<lparr>m_id = j, m_tenant_id = c_tenant_id (r_contact r),
                   m_contact_id = c_id (r_contact r), m_channel = p_channel p,
                   m_direction = lit ''out'', m_text = r_reply r\<rparr>]
               \<and> i \<notin> set (map m_id (messages s0))
               \<and> j \<notin> set (map m_id (messages s0)) \<and> i \<noteq> j
               \<and> ((\<forall>k\<in>set (map m_id (messages s0)). k < max_rowid - 1) \<longrightarrow>
                    i = next_id (map m_id (messages s0)) \<and> j = i + 1 \<and> j \<le> max_rowid
                    \<and> (\<forall>k\<in>set (map m_id (messages s0)). k < i))))"
proof (intro conjI allI impI)
  from assms show "\<exists>ms. messages s' = messages s0 @ ms"
    by (rule simulate_messages_prefix)
next
  fix r
  assume res: "res = Inr r"
  with simulate_messages_appended [OF assms]
  show "u_tenant_id u = Some (c_tenant_id (r_contact r))" by blast
  let ?old = "map m_id (messages s0)"
  let ?i = "next_id ?old"
  have 1: "messages s' = messages s0 @
                 [\<lparr>m_id = ?i, m_tenant_id = c_tenant_id (r_contact r),
                   m_contact_id = c_id (r_contact r), m_channel = p_channel p,
                   m_direction = lit ''in'', m_text = p_text p\<rparr>,
                  \<lparr>m_id = ?i + 1, m_tenant_id = c_tenant_id (r_contact r),
                   m_contact_id = c_id (r_contact r), m_channel = p_channel p,
                   m_direction = lit ''out'', m_text = r_reply r\<rparr>]"
    using simulate_messages_appended [OF assms] res by blast
  have gt: "\<forall>k\<in>set ?old. k < ?i" using next_id_greater by blast
  then have 2: "?i \<notin> set ?old" "?i + 1 \<notin> set ?old" "?i \<noteq> ?i + 1" by auto
  have 3: "(\<forall>k\<in>set ?old. k < max_rowid - 1) \<longrightarrow>
             ?i = ?i \<and> ?i + 1 = ?i + 1 \<and> ?i + 1 \<le> max_rowid \<and> (\<forall>k\<in>set ?old. k < ?i)"
  proof
    assume "\<forall>k\<in>set ?old. k < max_rowid - 1"
    then have "?i \<le> max_rowid - 1"
      by (rule next_id_bounded) (simp add: max_rowid_def)
    with gt show "?i = ?i \<and> ?i + 1 = ?i + 1 \<and> ?i + 1 \<le> max_rowid \<and> (\<forall>k\<in>set ?old. k < ?i)"
      by simp
  qed
  from 1 2 3 show "\<exists>i j. messages s' = messages s0 @
                 [\<lparr>m_id = i, m_tenant_id = c_tenant_id (r_contact r),
                   m_contact_id = c_id (r_contact r), m_channel = p_channel p,
                   m_direction = lit ''in'', m_text = p_text p\<rparr>,
                  \<lparr>m_id = j, m_tenant_id = c_tenant_id (r_contact r),
                   m_contact_id = c_id (r_contact r), m_channel = p_channel p,
                   m_direction = lit ''out'', m_text = r_reply r\<rparr>]
               \<and> i \<notin> set (map m_id (messages s0))
               \<and> j \<notin> set (map m_id (messages s0)) \<and> i \<noteq> j
               \<and> ((\<forall>k\<in>set (map m_id (messages s0)). k < max_rowid - 1) \<longrightarrow>
                    i = next_id (map m_id (messages s0)) \<and> j = i + 1 \<and> j \<le> max_rowid
                    \<and> (\<forall>k\<in>set (map m_id (messages s0)). k < i))"
    by blast
qed

theorem simulate_ledger_append_witness:
  "simulate ascii_lower no_faults db_first agent1 msg_ok =
     (Inr \<lparr>r_ok = True, r_reply = reply_other, r_stage = lit ''qualified'',
           r_contact = contact1, r_deal = deal1 (lit ''qualified'')\<rparr>,
      db_first\<lparr>messages := [msg_in1, msg_out1,
         \<lparr>m_id = 3, m_tenant_id = 1, m_contact_id = 1, m_channel = lit ''whatsapp'',
               m_direction = lit ''in'', m_text = lit ''ok''\<rparr>,
         \<lparr>m_id = 4, m_tenant_id = 1, m_contact_id = 1, m_channel = lit ''whatsapp'',
               m_direction = lit ''out'', m_text = reply_other\<rparr>]\<rparr>)
   \<and> u_tenant_id agent1 = Some (c_tenant_id contact1)
   \<and> messages db_first = [msg_in1, msg_out1]
   \<and> (3::int) \<notin> set (map m_id (messages db_first))
   \<and> (4::int) \<notin> set (map m_id (messages db_first))
   \<and> map m_id (messages db_first) = [1, 2]
   \<and> (1::int) < max_rowid - 1 \<and> (2::int) < max_rowid - 1
   \<and> next_id (map m_id (messages db_first)) = 3
   \<and> (4::int) = 3 + 1 \<and> 4 \<le> max_rowid
   \<and> (1::int) < 3 \<and> (2::int) < 3"
  using simulate_ledger_append [OF second_run]
  by (simp add: second_run)
     (simp add: db_first_def agent1_def contact1_def msg_in1_def msg_out1_def max_rowid_def
        next_id_def)

text \<open>What a completed call leaves for the next lookup of the same contact.\<close>

lemma simulate_Inr_lookup:
  assumes "simulate lower fails s0 u p = (Inr r, s')" and "u_tenant_id u = Some t"
  shows "find_contact s' t (p_channel p) (p_channel_user_id p) = Some (r_contact r)
    \<and> (\<exists>d'. find_open_deal s' t (c_id (r_contact r)) = Some d' \<and> d_id d' = d_id (r_deal r))
    \<and> d_status (r_deal r) = lit ''open''"
proof -
  from assms(1) obtain t' c s1 dirty d s3 created where
    t': "u_tenant_id u = Some t'"
    and rc: "resolve_contact s0 t' p = (c, s1, dirty)"
    and rd: "resolve_deal (add_message s1 t' (c_id c) (p_channel p) (lit ''in'') (p_text p))
               t' (c_id c) = (d, s3, created)"
    and r: "r_contact r = c" "r_deal r = d"
    and s': "s' = add_message (set_stage s3 (d_id d) (r_stage r)) t' (c_id c) (p_channel p)
                    (lit ''out'') (r_reply r)"
    by (rule simulate_Inr) simp
  from t' assms(2) have tt: "t' = t" by simp
  have "contacts s' = contacts s1"
    using rd by (simp add: s' add_message_simps set_stage_simps resolve_deal_frame)
  then have "find_contact s' t (p_channel p) (p_channel_user_id p)
               = find_contact s1 t (p_channel p) (p_channel_user_id p)"
    by (rule find_contact_cong)
  with resolve_contact_found [OF rc] tt r
  have 1: "find_contact s' t (p_channel p) (p_channel_user_id p) = Some (r_contact r)"
    by simp
  from resolve_deal_found [OF rd]
  have "find_open_deal s' t (c_id c) =
          Some (if d_id d = d_id d then d\<lparr>d_stage := r_stage r\<rparr> else d)"
    by (simp add: s' find_open_deal_add_message set_stage_find_open_deal tt)
  then have 2: "\<exists>d'. find_open_deal s' t (c_id (r_contact r)) = Some d'
                  \<and> d_id d' = d_id (r_deal r)"
    using r by simp
  from resolve_deal_key [OF rd] r have 3: "d_status (r_deal r) = lit ''open''" by simp
  from 1 2 3 show ?thesis by blast
qed

text \<open>A call on a database where the contact and an open deal are found.\<close>

lemma simulate_Inr_reuse:
  assumes "simulate lower fails s0 u p = (Inr r, s')" and "u_tenant_id u = Some t"
    and fc: "find_contact s0 t (p_channel p) (p_channel_user_id p) = Some c0"
    and fd: "find_open_deal s0 t (c_id c0) = Some d0"
  shows "c_id (r_contact r) = c_id c0 \<and> r_deal r = d0
         \<and> length (contacts s') = length (contacts s0)
         \<and> length (deals s') = length (deals s0)"
proof -
  from assms(1) obtain t' c s1 dirty d s3 created where
    t': "u_tenant_id u = Some t'"
    and rc: "resolve_contact s0 t' p = (c, s1, dirty)"
    and rd: "resolve_deal (add_message s1 t' (c_id c) (p_channel p) (lit ''in'') (p_text p))
               t' (c_id c) = (d, s3, created)"
    and r: "r_contact r = c" "r_deal r = d"
    and s': "s' = add_message (set_stage s3 (d_id d) (r_stage r)) t' (c_id c) (p_channel p)
                    (lit ''out'') (r_reply r)"
    by (rule simulate_Inr) simp
  from t' assms(2) have tt: "t' = t" by simp
  from resolve_contact_reuse [OF fc] rc tt
  have c: "c_id c = c_id c0" and lc: "length (contacts s1) = length (contacts s0)"
    by simp_all
  let ?s2 = "add_message s1 t (c_id c) (p_channel p) (lit ''in'') (p_text p)"
  from rc have "deals ?s2 = deals s0"
    by (simp add: add_message_simps resolve_contact_frame)
  then have "find_open_deal ?s2 t (c_id c) = find_open_deal s0 t (c_id c)"
    by (rule find_open_deal_cong)
  with fd c have "find_open_deal ?s2 t (c_id c) = Some d0" by simp
  with rd tt have d: "d = d0" and s3: "s3 = ?s2"
    by (auto simp: resolve_deal_def)
  have "length (contacts s') = length (contacts s0)"
    by (simp add: s' s3 tt add_message_simps set_stage_simps lc)
  moreover have "length (deals s') = length (deals s0)"
    using rc by (simp add: s' s3 tt add_message_simps set_stage_simps resolve_contact_frame)
  ultimately show ?thesis using c d r by simp
qed

text \<open>
  C1. Two calls in a row for the same tenant, channel and channel user id, both
  completed, whatever their texts and names: the second works on the contact with the
  id of the first and, the deal of the first being still open, on the deal with the id
  of the first. The second call creates no contact and no deal, whether the first
  created its rows or found them.
\<close>

theorem simulate_resolution_idempotent:
  assumes "simulate lower fails s0 u p = (Inr r1, s1)"
    and "simulate lower' fails' s1 u' p' = (Inr r2, s2)"
    and "u_tenant_id u' = u_tenant_id u"
    and "p_channel p' = p_channel p"
    and "p_channel_user_id p' = p_channel_user_id p"
  shows "c_id (r_contact r2) = c_id (r_contact r1)
         \<and> d_status (r_deal r1) = lit ''open''
         \<and> d_id (r_deal r2) = d_id (r_deal r1)
         \<and> length (contacts s2) = length (contacts s1)
         \<and> length (deals s2) = length (deals s1)"
proof -
  from assms(1) obtain t where t: "u_tenant_id u = Some t"
    by (rule simulate_Inr)
  with assms(3) have t': "u_tenant_id u' = Some t" by simp
  from simulate_Inr_lookup [OF assms(1) t] obtain d' where
    fc: "find_contact s1 t (p_channel p') (p_channel_user_id p') = Some (r_contact r1)"
    and fd: "find_open_deal s1 t (c_id (r_contact r1)) = Some d'"
    and d': "d_id d' = d_id (r_deal r1)"
    and st: "d_status (r_deal r1) = lit ''open''"
    using assms(4,5) by auto
  from simulate_Inr_reuse [OF assms(2) t' fc fd] d' st show ?thesis by simp
qed

theorem simulate_resolution_idempotent_witness:
  "simulate ascii_lower no_faults db_empty agent1 msg_price =
     (Inr \<lparr>r_ok = True, r_reply = reply_price, r_stage = lit ''qualified'',
           r_contact = contact1, r_deal = deal1 (lit ''new'')\<rparr>, db_first)
   \<and> fst (simulate ascii_lower no_faults db_first agent1 msg_ok) =
       Inr \<lparr>r_ok = True, r_reply = reply_other, r_stage = lit ''qualified'',
           r_contact = contact1, r_deal = deal1 (lit ''qualified'')\<rparr>
   \<and> u_tenant_id agent1 = u_tenant_id agent1
   \<and> p_channel msg_ok = p_channel msg_price
   \<and> p_channel_user_id msg_ok = p_channel_user_id msg_price
   \<and> c_id contact1 = c_id contact1
   \<and> d_status (deal1 (lit ''new'')) = lit ''open''
   \<and> d_id (deal1 (lit ''qualified'')) = d_id (deal1 (lit ''new''))
   \<and> length (contacts (snd (simulate ascii_lower no_faults db_first agent1 msg_ok))) = 1
   \<and> length (deals (snd (simulate ascii_lower no_faults db_first agent1 msg_ok))) = 1"
  using simulate_resolution_idempotent [OF first_run second_run]
  by (simp add: first_run second_run)
     (simp add: msg_ok_def msg_price_def deal1_def db_first_def)

subsection \<open>Rows of other tenants\<close>

lemma others_unchanged_refl: "others_unchanged t s s"
  by (simp add: others_unchanged_def)

lemma others_unchanged_trans:
  "others_unchanged t s s' \<Longrightarrow> others_unchanged t s' s'' \<Longrightarrow> others_unchanged t s s''"
  by (simp add: others_unchanged_def)

lemma resolve_contact_others:
  assumes "resolve_contact s t p = (c, s1, dirty)" and "pk_ok s"
  shows "others_unchanged t s s1"
  using resolve_contact_other_tenants [OF assms(1)] resolve_contact_frame [OF assms(1)] assms(2)
  by (simp add: others_unchanged_def pk_ok_def)

lemma add_message_others: "others_unchanged t s (add_message s t cid ch dir body)"
  by (simp add: others_unchanged_def add_message_simps new_message_simps)

lemma resolve_deal_others:
  assumes "resolve_deal s t cid = (d, s3, created)"
  shows "others_unchanged t s s3"
  using resolve_deal_other_tenants [OF assms] resolve_deal_frame [OF assms]
  by (simp add: others_unchanged_def)

lemma set_stage_others:
  assumes "pk_ok s" and "d \<in> set (deals s)" and "d_tenant_id d = t"
  shows "others_unchanged t s (set_stage s (d_id d) st)"
  using set_stage_other_tenants [of s d t st] assms
  by (simp add: others_unchanged_def pk_ok_def set_stage_simps)

lemma simulate_others_unchanged:
  assumes run: "simulate lower fails s0 u p = (res, s')"
    and t: "u_tenant_id u = Some t" and pk: "pk_ok s0"
  shows "others_unchanged t s0 s'"
proof -
  obtain c s1 dirty where rc: "resolve_contact s0 t p = (c, s1, dirty)"
    by (cases "resolve_contact s0 t p") auto
  define s2 where "s2 = add_message s1 t (c_id c) (p_channel p) (lit ''in'') (p_text p)"
  obtain d s3 created where rd: "resolve_deal s2 t (c_id c) = (d, s3, created)"
    by (cases "resolve_deal s2 t (c_id c)") auto
  define reply where
    "reply = (if has_price_or_rate (lower (p_text p)) then reply_price else reply_other)"
  define stage where
    "stage = (if has_price_or_rate (lower (p_text p)) then lit ''qualified''
              else if d_stage d = [] then lit ''new'' else d_stage d)"
  define s4 where "s4 = set_stage s3 (d_id d) stage"
  define s5 where "s5 = add_message s4 t (c_id c) (p_channel p) (lit ''out'') reply"
  have o1: "others_unchanged t s0 s1" using rc pk by (rule resolve_contact_others)
  have pk1: "pk_ok s1" using rc pk by (rule resolve_contact_pk_ok)
  have o2: "others_unchanged t s0 s2"
    unfolding s2_def using o1 add_message_others by (rule others_unchanged_trans)
  have pk2: "pk_ok s2" unfolding s2_def using pk1 by (rule add_message_pk_ok)
  have o3: "others_unchanged t s0 s3"
    using o2 resolve_deal_others [OF rd] by (rule others_unchanged_trans)
  have pk3: "pk_ok s3" using rd pk2 by (rule resolve_deal_pk_ok)
  from resolve_deal_key [OF rd] have "d \<in> set (deals s3)" "d_tenant_id d = t" by simp_all
  with pk3 have "others_unchanged t s3 s4"
    unfolding s4_def by (rule set_stage_others)
  with o3 have o4: "others_unchanged t s0 s4" by (rule others_unchanged_trans)
  have o5: "others_unchanged t s0 s5"
    unfolding s5_def using o4 add_message_others by (rule others_unchanged_trans)
  have "simulate lower fails s0 u p =
     (if dirty \<and> fails CommitContact then (Inl PersistenceError, s0)
      else if fails CommitInbound then (Inl PersistenceError, s1)
      else if created \<and> fails CommitDeal then (Inl PersistenceError, s2)
      else if fails CommitStage then (Inl PersistenceError, s3)
      else if fails CommitOutbound then (Inl PersistenceError, s4)
      else (Inr \<lparr>r_ok = True, r_reply = reply, r_stage = stage, r_contact = c,
                 r_deal = d\<rparr>, s5))"
    using t rc s2_def rd reply_def stage_def s4_def s5_def by (rule simulate_unfold)
  with run have "s' = s0 \<or> s' = s1 \<or> s' = s2 \<or> s' = s3 \<or> s' = s4 \<or> s' = s5"
    by (auto split: if_splits)
  with o1 o2 o3 o4 o5 others_unchanged_refl [of t s0] show ?thesis by auto
qed

lemma simulate_Inr_rows:
  assumes "simulate lower fails s0 u p = (Inr r, s')" and "u_tenant_id u = Some t"
  shows "r_contact r \<in> set (contacts s') \<and> c_tenant_id (r_contact r) = t
         \<and> d_tenant_id (r_deal r) = t \<and> d_contact_id (r_deal r) = c_id (r_contact r)"
proof -
  from assms(1) obtain t' c s1 dirty d s3 created where
    t': "u_tenant_id u = Some t'"
    and rc: "resolve_contact s0 t' p = (c, s1, dirty)"
    and rd: "resolve_deal (add_message s1 t' (c_id c) (p_channel p) (lit ''in'') (p_text p))
               t' (c_id c) = (d, s3, created)"
    and r: "r_contact r = c" "r_deal r = d"
    and s': "s' = add_message (set_stage s3 (d_id d) (r_stage r)) t' (c_id c) (p_channel p)
                    (lit ''out'') (r_reply r)"
    by (rule simulate_Inr) simp
  from t' assms(2) have tt: "t' = t" by simp
  have "contacts s' = contacts s1"
    using rd by (simp add: s' add_message_simps set_stage_simps resolve_deal_frame)
  with resolve_contact_member [OF rc] resolve_contact_key [OF rc] resolve_deal_key [OF rd] r tt
  show ?thesis by simp
qed

lemma find_filter: "(\<And>x. P x \<Longrightarrow> Q x) \<Longrightarrow> find P (filter Q xs) = find P xs"
  by (induction xs) auto

lemma find_contact_tenant_rows:
  "find_contact (tenant_rows t s) t ch uid = find_contact s t ch uid"
  unfolding find_contact_def tenant_rows_def db.select_convs
  by (rule find_filter) simp

lemma find_open_deal_tenant_rows:
  "find_open_deal (tenant_rows t s) t cid = find_open_deal s t cid"
proof -
  have "open_deals (tenant_rows t s) t cid = open_deals s t cid"
    by (auto simp: open_deals_def tenant_rows_def intro: filter_cong)
  then show ?thesis by (simp add: find_open_deal_def)
qed

text \<open>
  C6. On tables whose ids are primary keys, two completed calls in a row for two
  different tenants, in particular with the same channel and channel user id, work on
  two contacts with different ids, each of its own tenant, as is the deal of each call.
  A call for a tenant leaves every contact, deal and message of the other tenants as
  it was, and its two queries give what they give on the rows of the tenant alone.
\<close>

theorem simulate_tenant_isolation:
  assumes "pk_ok s0"
    and "simulate lower fails s0 u1 p1 = (Inr r1, s1)"
    and "simulate lower' fails' s1 u2 p2 = (Inr r2, s2)"
    and "u_tenant_id u1 = Some t1" and "u_tenant_id u2 = Some t2" and "t1 \<noteq> t2"
  shows "c_id (r_contact r1) \<noteq> c_id (r_contact r2)
         \<and> c_tenant_id (r_contact r1) = t1 \<and> c_tenant_id (r_contact r2) = t2
         \<and> d_tenant_id (r_deal r1) = t1 \<and> d_tenant_id (r_deal r2) = t2
         \<and> others_unchanged t1 s0 s1 \<and> others_unchanged t2 s1 s2
         \<and> find_contact (tenant_rows t1 s0) t1 (p_channel p1) (p_channel_user_id p1)
             = find_contact s0 t1 (p_channel p1) (p_channel_user_id p1)
         \<and> find_contact (tenant_rows t2 s1) t2 (p_channel p2) (p_channel_user_id p2)
             = find_contact s1 t2 (p_channel p2) (p_channel_user_id p2)
         \<and> find_open_deal (tenant_rows t1 s0) t1 (c_id (r_contact r1))
             = find_open_deal s0 t1 (c_id (r_contact r1))
         \<and> find_open_deal (tenant_rows t2 s1) t2 (c_id (r_contact r2))
             = find_open_deal s1 t2 (c_id (r_contact r2))"
proof -
  have pk1: "pk_ok s1" using assms(2,1) by (rule simulate_pk_ok)
  have pk2: "pk_ok s2" using assms(3) pk1 by (rule simulate_pk_ok)
  have o1: "others_unchanged t1 s0 s1"
    using assms(2,4,1) by (rule simulate_others_unchanged)
  have o2: "others_unchanged t2 s1 s2"
    using assms(3,5) pk1 by (rule simulate_others_unchanged)
  from simulate_Inr_rows [OF assms(2,4)]
  have c1: "r_contact r1 \<in> set (contacts s1)" "c_tenant_id (r_contact r1) = t1"
    and d1: "d_tenant_id (r_deal r1) = t1" by simp_all
  from simulate_Inr_rows [OF assms(3,5)]
  have c2: "r_contact r2 \<in> set (contacts s2)" "c_tenant_id (r_contact r2) = t2"
    and d2: "d_tenant_id (r_deal r2) = t2" by simp_all
  from c1 assms(6) have "r_contact r1 \<in> set (filter (\<lambda>c. c_tenant_id c \<noteq> t2) (contacts s1))"
    by simp
  with o2 have "r_contact r1 \<in> set (filter (\<lambda>c. c_tenant_id c \<noteq> t2) (contacts s2))"
    by (simp add: others_unchanged_def)
  then have in2: "r_contact r1 \<in> set (contacts s2)" by simp
  have "c_id (r_contact r1) \<noteq> c_id (r_contact r2)"
  proof
    assume eq: "c_id (r_contact r1) = c_id (r_contact r2)"
    from pk2 have "inj_on c_id (set (contacts s2))"
      by (simp add: pk_ok_def distinct_map)
    then have "r_contact r1 = r_contact r2"
      using eq in2 c2(1) by (rule inj_onD)
    with c1(2) c2(2) assms(6) show False by simp
  qed
  with c1 c2 d1 d2 o1 o2 show ?thesis
    by (simp add: find_contact_tenant_rows find_open_deal_tenant_rows)
qed

lemma tenant2_run:
  "simulate ascii_lower no_faults db_first agent2 msg_ok =
     (Inr \<lparr>r_ok = True, r_reply = reply_other, r_stage = lit ''new'',
           r_contact = contact2, r_deal = deal2 (lit ''new'')\<rparr>, db_second_tenant)"
  by (simp add: run_defs contact2_def deal2_def db_second_tenant_def)

theorem simulate_tenant_isolation_witness:
  "pk_ok db_empty
   \<and> simulate ascii_lower no_faults db_empty agent1 msg_price =
       (Inr \<lparr>r_ok = True, r_reply = reply_price, r_stage = lit ''qualified'',
             r_contact = contact1, r_deal = deal1 (lit ''new'')\<rparr>, db_first)
   \<and> simulate ascii_lower no_faults db_first agent2 msg_ok =
       (Inr \<lparr>r_ok = True, r_reply = reply_other, r_stage = lit ''new'',
             r_contact = contact2, r_deal = deal2 (lit ''new'')\<rparr>, db_second_tenant)
   \<and> u_tenant_id agent1 = Some 1 \<and> u_tenant_id agent2 = Some 2 \<and> (1::int) \<noteq> 2
   \<and> p_channel msg_ok = p_channel msg_price
   \<and> p_channel_user_id msg_ok = p_channel_user_id msg_price
   \<and> c_id contact1 \<noteq> c_id contact2
   \<and> c_tenant_id contact1 = 1 \<and> c_tenant_id contact2 = 2
   \<and> others_unchanged 1 db_empty db_first \<and> others_unchanged 2 db_first db_second_tenant
   \<and> find_contact (tenant_rows 2 db_first) 2 (p_channel msg_ok) (p_channel_user_id msg_ok)
       = find_contact db_first 2 (p_channel msg_ok) (p_channel_user_id msg_ok)
   \<and> find_open_deal (tenant_rows 1 db_empty) 1 (c_id contact1)
       = find_open_deal db_empty 1 (c_id contact1)"
proof -
  have pk: "pk_ok db_empty" by (simp add: pk_ok_def db_empty_def)
  have u1: "u_tenant_id agent1 = Some 1" by (simp add: agent1_def)
  have u2: "u_tenant_id agent2 = Some 2" by (simp add: agent2_def)
  have ne: "(1::int) \<noteq> 2" by simp
  from simulate_tenant_isolation [OF pk first_run tenant2_run u1 u2 ne] pk u1 u2
  show ?thesis
    by (simp add: first_run tenant2_run) (simp add: msg_ok_def msg_price_def)
qed

subsection \<open>The stage\<close>

lemma stage_le_low:
  "stage_le (lit ''new'') (lit ''new'')" "stage_le (lit ''new'') (lit ''qualified'')"
  "stage_le (lit ''qualified'') (lit ''qualified'')"
  "\<not> stage_le (lit ''order'') (lit ''qualified'')"
  "\<not> stage_le (lit ''closed'') (lit ''qualified'')"
  by (simp_all add: stage_le_def stage_rank_def lit_def)

lemma stage_names: "lit ''new'' \<noteq> []" "lit ''qualified'' \<noteq> []"
  by (simp_all add: lit_def)

text \<open>
  C4 (as amended). A completed call whose lowercased text holds neither \<open>price\<close> nor
  \<open>rate\<close> leaves the stage of the deal as it was, an empty stage becoming \<open>new\<close>; one
  whose text holds \<open>price\<close> or \<open>rate\<close> sets the stage to \<open>qualified\<close> whatever it was.
  So a deal at \<open>new\<close> or \<open>qualified\<close> never moves down the funnel, and a deal at
  \<open>qualified\<close> stays there on a text without the two words. The stage is stored in
  the row of the deal and returned.
\<close>

theorem simulate_stage_update:
  assumes "simulate lower fails s0 u p = (Inr r, s')"
  shows "(\<not> has_price_or_rate (lower (p_text p)) \<longrightarrow>
            r_stage r = (if d_stage (r_deal r) = [] then lit ''new'' else d_stage (r_deal r)))
       \<and> (has_price_or_rate (lower (p_text p)) \<longrightarrow> r_stage r = lit ''qualified'')
       \<and> (d_stage (r_deal r) = lit ''new'' \<or> d_stage (r_deal r) = lit ''qualified'' \<longrightarrow>
            stage_le (d_stage (r_deal r)) (r_stage r))
       \<and> (\<forall>d\<in>set (deals s'). d_id d = d_id (r_deal r) \<longrightarrow> d_stage d = r_stage r)"
proof -
  from assms obtain t c s1 dirty d s3 created where
    r: "r = \<lparr>r_ok = True,
          r_reply = (if has_price_or_rate (lower (p_text p)) then reply_price else reply_other),
          r_stage = (if has_price_or_rate (lower (p_text p)) then lit ''qualified''
                     else if d_stage d = [] then lit ''new'' else d_stage d),
          r_contact = c, r_deal = d\<rparr>"
    and s': "s' = add_message (set_stage s3 (d_id d) (r_stage r)) t (c_id c) (p_channel p)
                    (lit ''out'') (r_reply r)"
    by (rule simulate_Inr)
  from r have rd: "r_deal r = d"
    and st: "r_stage r = (if has_price_or_rate (lower (p_text p)) then lit ''qualified''
                     else if d_stage d = [] then lit ''new'' else d_stage d)"
    by simp_all
  have 1: "\<not> has_price_or_rate (lower (p_text p)) \<longrightarrow>
            r_stage r = (if d_stage (r_deal r) = [] then lit ''new'' else d_stage (r_deal r))"
    using st rd by simp
  have 2: "has_price_or_rate (lower (p_text p)) \<longrightarrow> r_stage r = lit ''qualified''"
    using st by simp
  have 3: "d_stage (r_deal r) = lit ''new'' \<or> d_stage (r_deal r) = lit ''qualified'' \<longrightarrow>
            stage_le (d_stage (r_deal r)) (r_stage r)"
    using st rd stage_le_low(1-3) stage_names by auto
  have "deals s' = deals (set_stage s3 (d_id (r_deal r)) (r_stage r))"
    by (simp add: s' rd add_message_simps)
  then have 4: "\<forall>x\<in>set (deals s'). d_id x = d_id (r_deal r) \<longrightarrow> d_stage x = r_stage r"
    using set_stage_stored by auto
  from 1 2 3 4 show ?thesis by blast
qed

theorem simulate_stage_update_witness:
  "simulate ascii_lower no_faults db_first agent1 msg_ok =
     (Inr \<lparr>r_ok = True, r_reply = reply_other, r_stage = lit ''qualified'',
           r_contact = contact1, r_deal = deal1 (lit ''qualified'')\<rparr>,
      db_first\<lparr>messages := [msg_in1, msg_out1,
         \<lparr>m_id = 3, m_tenant_id = 1, m_contact_id = 1, m_channel = lit ''whatsapp'',
               m_direction = lit ''in'', m_text = lit ''ok''\<rparr>,
         \<lparr>m_id = 4, m_tenant_id = 1, m_contact_id = 1, m_channel = lit ''whatsapp'',
               m_direction = lit ''out'', m_text = reply_other\<rparr>]\<rparr>)
   \<and> \<not> has_price_or_rate (ascii_lower (p_text msg_ok))
   \<and> has_price_or_rate (ascii_lower (p_text msg_price))
   \<and> d_stage (deal1 (lit ''qualified'')) = lit ''qualified''
   \<and> stage_le (lit ''qualified'') (lit ''qualified'')
   \<and> deal1 (lit ''qualified'') \<in> set (deals db_first)
   \<and> fst (simulate ascii_lower no_faults db_empty agent1 msg_price) =
       Inr \<lparr>r_ok = True, r_reply = reply_price, r_stage = lit ''qualified'',
           r_contact = contact1, r_deal = deal1 (lit ''new'')\<rparr>
   \<and> stage_le (lit ''new'') (lit ''qualified'')"
  using simulate_stage_update [OF second_run] simulate_stage_update [OF first_run]
  by (simp add: first_run second_run)
     (simp add: has_price_or_rate_def ascii_lower_def msg_ok_def msg_price_def deal1_def
        db_first_def lit_def)

text \<open>
  C4 as stated fails: a text with \<open>price\<close> moves an open deal at \<open>order\<close> down to
  \<open>qualified\<close>.
\<close>

theorem simulate_stage_downgrade:
  "simulate ascii_lower no_faults db_order agent1 msg_price =
     (Inr \<lparr>r_ok = True, r_reply = reply_price, r_stage = lit ''qualified'',
           r_contact = contact1, r_deal = deal1 (lit ''order'')\<rparr>,
      \<lparr>contacts = [contact1], deals = [deal1 (lit ''qualified'')],
        messages = [msg_in1, msg_out1]\<rparr>)
   \<and> d_status (deal1 (lit ''order'')) = lit ''open''
   \<and> \<not> stage_le (lit ''order'') (lit ''qualified'')"
  by (simp add: order_run stage_le_low) (simp add: deal1_def)

subsection \<open>Commits\<close>

lemma map_changes:
  assumes "x \<in> set xs" and "f x \<noteq> x"
  shows "map f xs \<noteq> xs"
  using assms by (induction xs) auto

lemma resolve_contact_dirty:
  assumes "resolve_contact s t p = (c, s1, dirty)" and "dirty"
  shows "contacts s1 \<noteq> contacts s"
proof (cases "find_contact s t (p_channel p) (p_channel_user_id p)")
  case None
  with assms show ?thesis by (auto simp: resolve_contact_def Let_def)
next
  case (Some c0)
  with assms have tr: "str_truthy (p_contact_name p)" "\<not> str_truthy (c_contact_name c0)"
    and s1: "contacts s1 = map (\<lambda>x. if c_id x = c_id c0
                 then x\<lparr>c_contact_name := p_contact_name p\<rparr> else x) (contacts s)"
    by (auto simp: resolve_contact_def split: if_splits)
  from tr have "c_contact_name c0 \<noteq> p_contact_name p" by auto
  then have "c0\<lparr>c_contact_name := p_contact_name p\<rparr> \<noteq> c0"
    by (metis contact.select_convs(5) contact.surjective contact.update_convs(5))
  moreover from Some have "c0 \<in> set (contacts s)" by (auto dest: find_contact_Some)
  ultimately have "map (\<lambda>x. if c_id x = c_id c0
                 then x\<lparr>c_contact_name := p_contact_name p\<rparr> else x) (contacts s) \<noteq> contacts s"
    by (intro map_changes [where x = c0]) auto
  with s1 show ?thesis by simp
qed

text \<open>
  C3 (as amended). The writes of one call are committed one after the other: the
  contact (created, or its name filled in), the inbound message, the deal if one is
  created, the stage, the outbound message. When a commit raises, the call fails with
  the persistence error and the database is as the commit before it left it: the
  earlier writes stay, the failing write and the later ones are absent. Each of the
  contact, message and deal commits writes something, so only a call that fails at its
  first commit leaves the database as it found it.
\<close>

theorem simulate_commits_one_by_one:
  assumes "u_tenant_id u = Some t"
    and "resolve_contact s0 t p = (c, s1, dirty)"
    and "s2 = add_message s1 t (c_id c) (p_channel p) (lit ''in'') (p_text p)"
    and "resolve_deal s2 t (c_id c) = (d, s3, created)"
    and "reply = (if has_price_or_rate (lower (p_text p)) then reply_price else reply_other)"
    and "stage = (if has_price_or_rate (lower (p_text p)) then lit ''qualified''
                  else if d_stage d = [] then lit ''new'' else d_stage d)"
    and "s4 = set_stage s3 (d_id d) stage"
    and "s5 = add_message s4 t (c_id c) (p_channel p) (lit ''out'') reply"
  shows "simulate lower fails s0 u p =
     (if dirty \<and> fails CommitContact then (Inl PersistenceError, s0)
      else if fails CommitInbound then (Inl PersistenceError, s1)
      else if created \<and> fails CommitDeal then (Inl PersistenceError, s2)
      else if fails CommitStage then (Inl PersistenceError, s3)
      else if fails CommitOutbound then (Inl PersistenceError, s4)
      else (Inr \<lparr>r_ok = True, r_reply = reply, r_stage = stage, r_contact = c,
                 r_deal = d\<rparr>, s5))
     \<and> (dirty \<longrightarrow> contacts s1 \<noteq> contacts s0)
     \<and> length (messages s2) = length (messages s1) + 1
     \<and> (created \<longrightarrow> length (deals s3) = length (deals s2) + 1)
     \<and> length (messages s5) = length (messages s4) + 1"
proof -
  have 1: "simulate lower fails s0 u p =
     (if dirty \<and> fails CommitContact then (Inl PersistenceError, s0)
      else if fails CommitInbound then (Inl PersistenceError, s1)
      else if created \<and> fails CommitDeal then (Inl PersistenceError, s2)
      else if fails CommitStage then (Inl PersistenceError, s3)
      else if fails CommitOutbound then (Inl PersistenceError, s4)
      else (Inr \<lparr>r_ok = True, r_reply = reply, r_stage = stage, r_contact = c,
                 r_deal = d\<rparr>, s5))"
    using assms by (rule simulate_unfold)
  have 2: "dirty \<longrightarrow> contacts s1 \<noteq> contacts s0"
    using resolve_contact_dirty [OF assms(2)] by blast
  have 3: "length (messages s2) = length (messages s1) + 1"
    by (simp add: assms(3) add_message_simps)
  have 4: "created \<longrightarrow> length (deals s3) = length (deals s2) + 1"
    using resolve_deal_created [OF assms(4)] resolve_deal_new [OF assms(4)] by auto
  have 5: "length (messages s5) = length (messages s4) + 1"
    by (simp add: assms(8) add_message_simps)
  from 1 2 3 4 5 show ?thesis by blast
qed

lemmas step_defs = resolve_contact_def find_contact_def resolve_deal_def
  find_open_deal_def open_deals_def add_message_def new_message_def set_stage_def next_id_def
  has_price_or_rate_def ascii_lower_def lit_def reply_price_def reply_other_def Let_def
  db_empty_def agent1_def msg_price_def contact1_def deal1_def msg_in1_def msg_out1_def
  db_first_def db_contact_def db_inbound_def db_deal_def db_stage_def

theorem simulate_commits_one_by_one_witness:
  "u_tenant_id agent1 = Some 1
   \<and> resolve_contact db_empty 1 msg_price = (contact1, db_contact, True)
   \<and> resolve_deal db_inbound 1 (c_id contact1) = (deal1 (lit ''new''), db_deal, True)
   \<and> simulate ascii_lower (fault_at CommitDeal) db_empty agent1 msg_price
       = (Inl PersistenceError, db_inbound)
   \<and> contacts db_contact \<noteq> contacts db_empty
   \<and> length (messages db_inbound) = length (messages db_contact) + 1
   \<and> length (deals db_deal) = length (deals db_inbound) + 1
   \<and> length (messages db_first) = length (messages db_stage) + 1"
proof -
  have h1: "u_tenant_id agent1 = Some 1" by (simp add: agent1_def)
  have h2: "resolve_contact db_empty 1 msg_price = (contact1, db_contact, True)"
    by (simp add: step_defs)
  have h3: "db_inbound = add_message db_contact 1 (c_id contact1) (p_channel msg_price)
                           (lit ''in'') (p_text msg_price)"
    by (simp add: step_defs)
  have h4: "resolve_deal db_inbound 1 (c_id contact1) = (deal1 (lit ''new''), db_deal, True)"
    by (simp add: step_defs)
  have h5: "reply_price = (if has_price_or_rate (ascii_lower (p_text msg_price))
                           then reply_price else reply_other)"
    by (simp add: step_defs)
  have h6: "lit ''qualified'' = (if has_price_or_rate (ascii_lower (p_text msg_price))
              then lit ''qualified''
              else if d_stage (deal1 (lit ''new'')) = [] then lit ''new''
                   else d_stage (deal1 (lit ''new'')))"
    by (simp add: step_defs)
  have h7: "db_stage = set_stage db_deal (d_id (deal1 (lit ''new''))) (lit ''qualified'')"
    by (simp add: step_defs)
  have h8: "db_first = add_message db_stage 1 (c_id contact1) (p_channel msg_price)
                         (lit ''out'') reply_price"
    by (simp add: step_defs)
  from simulate_commits_one_by_one [where lower = ascii_lower and fails = "fault_at CommitDeal",
      OF h1 h2 h3 h4 h5 h6 h7 h8] h1 h2 h4
  show ?thesis by (simp add: fault_at_def)
qed

text \<open>
  C3 as stated fails: when the last commit raises, the call fails and the contact, the
  inbound message and the deal with its new stage stay in the database, without the
  outbound message.
\<close>

theorem simulate_partial_commit:
  "simulate ascii_lower (fault_at CommitOutbound) db_empty agent1 msg_price
     = (Inl PersistenceError,
        \<lparr>contacts = [contact1], deals = [deal1 (lit ''qualified'')], messages = [msg_in1]\<rparr>)
   \<and> simulate ascii_lower no_faults db_empty agent1 msg_price
     = (Inr \<lparr>r_ok = True, r_reply = reply_price, r_stage = lit ''qualified'',
             r_contact = contact1, r_deal = deal1 (lit ''new'')\<rparr>,
        \<lparr>contacts = [contact1], deals = [deal1 (lit ''qualified'')],
         messages = [msg_in1, msg_out1]\<rparr>)
   \<and> db_empty = \<lparr>contacts = [], deals = [], messages = []\<rparr>"
  by (simp add: run_defs)

section \<open>Replies and sanitization\<close>

lemma sanitize_ascii_smart_punctuation:
  "sanitize_ascii (lit ''I'' @ [8217] @ lit ''ll pay '' @ [8212] @ lit '' today'')
     = lit ''I'' @ [39] @ lit ''ll pay - today''"
  by (simp add: lit_def sanitize_ascii_def replace_cp_def encode_ascii_ignore_def strip_def
      isspace_def)

lemma sanitize_ascii_reply_price: "sanitize_ascii reply_price = default_reply"
  by (simp add: reply_price_def default_reply_def lit_def sanitize_ascii_def replace_cp_def
      encode_ascii_ignore_def strip_def isspace_def)

lemma sanitize_ascii_reply_other: "sanitize_ascii reply_other = reply_other"
  by (simp add: reply_other_def lit_def sanitize_ascii_def replace_cp_def
      encode_ascii_ignore_def strip_def isspace_def)

text \<open>
  C5 fails on the handler. \<open>run_agent\<close> sanitizes every reply it returns
  (\<open>run_agent_reply_sanitized\<close>), but \<open>simulate\<close> returns and stores its own reply as
  written in the source: on a text with \<open>price\<close> the reply holds U+2019, which is not
  ASCII, where its sanitized form, the default reply of \<open>run_agent\<close>, has the apostrophe.
\<close>

theorem simulate_reply_not_sanitized:
  "simulate ascii_lower no_faults db_empty agent1 msg_price
     = (Inr \<lparr>r_ok = True, r_reply = reply_price, r_stage = lit ''qualified'',
             r_contact = contact1, r_deal = deal1 (lit ''new'')\<rparr>, db_first)
   \<and> list_ex (\<lambda>c. c = 8217) reply_price
   \<and> list_ex (\<lambda>c. 128 \<le> c) reply_price
   \<and> sanitize_ascii reply_price \<noteq> reply_price
   \<and> sanitize_ascii reply_price = default_reply"
  by (simp add: first_run sanitize_ascii_reply_price)
     (simp add: reply_price_def default_reply_def lit_def)

section \<open>Requests that overlap, step by step\<close>

lemma step_ContactQuery:
  "q_pc q = ContactQuery \<Longrightarrow>
   step lower s q =
     (s, q\<lparr>q_contact := find_contact s (q_tenant_id q) (p_channel (q_payload q))
                            (p_channel_user_id (q_payload q)),
            q_pc := ContactWrite\<rparr>)"
  by (simp add: step_def Let_def)

lemma step_ContactWrite:
  assumes "q_pc q = ContactWrite"
    and "q_contact q = find_contact s (q_tenant_id q) (p_channel (q_payload q))
                         (p_channel_user_id (q_payload q))"
    and "resolve_contact s (q_tenant_id q) (q_payload q) = (c, s1, dirty)"
  shows "step lower s q = (s1, q\<lparr>q_contact := Some c, q_pc := InboundWrite\<rparr>)"
proof (cases "find_contact s (q_tenant_id q) (p_channel (q_payload q))
                (p_channel_user_id (q_payload q))")
  case None
  with assms show ?thesis
    by (auto simp: step_def resolve_contact_def Let_def)
next
  case (Some c0)
  with assms show ?thesis
    by (auto simp: step_def resolve_contact_def Let_def split: if_splits)
qed

lemma step_InboundWrite:
  "q_pc q = InboundWrite \<Longrightarrow> q_contact q = Some c \<Longrightarrow>
   step lower s q =
     (add_message s (q_tenant_id q) (c_id c) (p_channel (q_payload q)) (lit ''in'')
        (p_text (q_payload q)),
      q\<lparr>q_pc := DealQuery\<rparr>)"
  by (simp add: step_def Let_def)

lemma step_DealQuery:
  "q_pc q = DealQuery \<Longrightarrow> q_contact q = Some c \<Longrightarrow>
   step lower s q =
     (s, q\<lparr>q_deal := find_open_deal s (q_tenant_id q) (c_id c), q_pc := DealWrite\<rparr>)"
  by (simp add: step_def Let_def)

lemma step_DealWrite:
  assumes "q_pc q = DealWrite" and "q_contact q = Some c"
    and "q_deal q = find_open_deal s (q_tenant_id q) (c_id c)"
    and "resolve_deal s (q_tenant_id q) (c_id c) = (d, s3, created)"
  shows "step lower s q = (s3, q\<lparr>q_deal := Some d, q_pc := StageWrite\<rparr>)"
proof (cases "find_open_deal s (q_tenant_id q) (c_id c)")
  case None
  with assms show ?thesis
    by (auto simp: step_def resolve_deal_def Let_def)
next
  case (Some d0)
  with assms show ?thesis
    by (auto simp: step_def resolve_deal_def Let_def)
qed

lemma set_stage_same:
  assumes "distinct (map d_id (deals s))" and "d \<in> set (deals s)"
  shows "set_stage s (d_id d) (d_stage d) = s"
proof -
  have "\<And>x. x \<in> set (deals s) \<Longrightarrow> d_id x = d_id d \<Longrightarrow> x = d"
    using assms by (meson distinct_map inj_onD)
  then have "\<And>x. x \<in> set (deals s) \<Longrightarrow> d_id x = d_id d \<Longrightarrow> d_stage d = d_stage x"
    by blast
  then have "map (\<lambda>x. if d_id x = d_id d then x\<lparr>d_stage := d_stage d\<rparr> else x) (deals s)
             = deals s"
    by (intro map_idI) auto
  then show ?thesis by (simp add: set_stage_def)
qed

lemma step_StageWrite:
  assumes "q_pc q = StageWrite" and "q_deal q = Some d"
    and "distinct (map d_id (deals s))" and "d \<in> set (deals s)"
    and "reply = (if has_price_or_rate (lower (p_text (q_payload q))) then reply_price
                  else reply_other)"
    and "stage = (if has_price_or_rate (lower (p_text (q_payload q))) then lit ''qualified''
                  else if d_stage d = [] then lit ''new'' else d_stage d)"
  shows "step lower s q =
           (set_stage s (d_id d) stage,
            q\<lparr>q_reply := reply, q_stage := stage, q_pc := OutboundWrite\<rparr>)"
proof (cases "stage = d_stage d")
  case True
  with set_stage_same [OF assms(3,4)] have "set_stage s (d_id d) stage = s" by simp
  with True assms(1,2,5,6) show ?thesis
    by (simp add: step_def Let_def)
next
  case False
  with assms(1,2,5,6) show ?thesis
    by (simp add: step_def Let_def)
qed

lemma find_id_stored:
  assumes "d \<in> set (deals s)"
  shows "\<exists>row. find (\<lambda>x. d_id x = d_id d) (deals (set_stage s (d_id d) st)) = Some row
               \<and> d_stage row = st"
proof -
  from assms have "d\<lparr>d_stage := st\<rparr> \<in> set (deals (set_stage s (d_id d) st))"
    by (force simp: set_stage_def)
  then have "\<exists>x\<in>set (deals (set_stage s (d_id d) st)). d_id x = d_id d"
    by (rule bexI [rotated]) simp
  then obtain row where row: "find (\<lambda>x. d_id x = d_id d) (deals (set_stage s (d_id d) st)) = Some row"
    by (cases "find (\<lambda>x. d_id x = d_id d) (deals (set_stage s (d_id d) st))")
       (auto simp: find_None_iff)
  then have "row \<in> set (deals (set_stage s (d_id d) st))" "d_id row = d_id d"
    by (auto simp: find_Some_iff)
  then have "d_stage row = st" by (rule set_stage_stored)
  with row show ?thesis by simp
qed

lemma step_OutboundWrite:
  assumes "q_pc q = OutboundWrite" and "q_contact q = Some c" and "q_deal q = Some d"
    and "find (\<lambda>x. d_id x = d_id d) (deals s) = Some row"
  shows "step lower s q =
           (add_message s (q_tenant_id q) (c_id c) (p_channel (q_payload q)) (lit ''out'')
              (q_reply q),
            q\<lparr>q_stage := d_stage row, q_pc := Returned\<rparr>)"
  using assms by (simp add: step_def Let_def)

text \<open>
  Alone, a request goes through its seven steps as \<open>simulate\<close> without faults does.
\<close>

lemma interleave_alone:
  assumes pk: "pk_ok s0" and t: "u_tenant_id u = Some t"
    and run: "simulate lower no_faults s0 u p = (Inr r, s')"
  shows "interleave lower [0, 0, 0, 0, 0, 0, 0] s0 [start t p] =
           (s', [\<lparr>q_tenant_id = t, q_payload = p, q_pc = Returned,
                   q_contact = Some (r_contact r), q_deal = Some (r_deal r),
                   q_reply = r_reply r, q_stage = r_stage r\<rparr>])"
proof -
  from run obtain t' c s1 dirty d s3 created where
    t': "u_tenant_id u = Some t'"
    and rc: "resolve_contact s0 t' p = (c, s1, dirty)"
    and rd: "resolve_deal (add_message s1 t' (c_id c) (p_channel p) (lit ''in'') (p_text p))
               t' (c_id c) = (d, s3, created)"
    and r: "r = \<lparr>r_ok = True,
          r_reply = (if has_price_or_rate (lower (p_text p)) then reply_price else reply_other),
          r_stage = (if has_price_or_rate (lower (p_text p)) then lit ''qualified''
                     else if d_stage d = [] then lit ''new'' else d_stage d),
          r_contact = c, r_deal = d\<rparr>"
    and s': "s' = add_message (set_stage s3 (d_id d) (r_stage r)) t' (c_id c) (p_channel p)
                    (lit ''out'') (r_reply r)"
    by (rule simulate_Inr)
  from t t' have tt: "t' = t" by simp
  note rc = rc [unfolded tt] and rd = rd [unfolded tt] and s' = s' [unfolded tt]
  define s2 where "s2 = add_message s1 t (c_id c) (p_channel p) (lit ''in'') (p_text p)"
  define q1 where "q1 = (start t p)\<lparr>q_contact := find_contact s0 t (p_channel p)
                           (p_channel_user_id p), q_pc := ContactWrite\<rparr>"
  define q2 where "q2 = q1\<lparr>q_contact := Some c, q_pc := InboundWrite\<rparr>"
  define q3 where "q3 = q2\<lparr>q_pc := DealQuery\<rparr>"
  define q4 where "q4 = q3\<lparr>q_deal := find_open_deal s2 t (c_id c), q_pc := DealWrite\<rparr>"
  define q5 where "q5 = q4\<lparr>q_deal := Some d, q_pc := StageWrite\<rparr>"
  define q6 where "q6 = q5\<lparr>q_reply := r_reply r, q_stage := r_stage r, q_pc := OutboundWrite\<rparr>"
  have pk3: "pk_ok s3"
    using rd rc pk unfolding s2_def [symmetric]
    by (auto intro: resolve_deal_pk_ok add_message_pk_ok resolve_contact_pk_ok simp: s2_def)
  from resolve_deal_key [OF rd] have din: "d \<in> set (deals s3)" by simp
  have 1: "step lower s0 (start t p) = (s0, q1)"
    by (simp add: step_ContactQuery start_def q1_def)
  have 2: "step lower s0 q1 = (s1, q2)"
    unfolding q2_def
    by (rule step_ContactWrite [where dirty = dirty]) (simp_all add: q1_def start_def rc)
  have 3: "step lower s1 q2 = (s2, q3)"
    using step_InboundWrite [of q2 c lower s1]
    by (simp add: q2_def q1_def start_def s2_def q3_def)
  have 4: "step lower s2 q3 = (s2, q4)"
    using step_DealQuery [of q3 c lower s2]
    by (simp add: q3_def q2_def q1_def start_def q4_def)
  have 5: "step lower s2 q4 = (s3, q5)"
    unfolding q5_def
    by (rule step_DealWrite [where c = c and created = created])
       (simp_all add: q4_def q3_def q2_def q1_def start_def rd [folded s2_def])
  have 6: "step lower s3 q5 = (set_stage s3 (d_id d) (r_stage r), q6)"
    unfolding q6_def
    by (rule step_StageWrite [where d = d])
       (use pk3 din in \<open>simp_all add: q5_def q4_def q3_def q2_def q1_def start_def r pk_ok_def\<close>)
  from find_id_stored [OF din, of "r_stage r"] obtain row where
    row: "find (\<lambda>x. d_id x = d_id d) (deals (set_stage s3 (d_id d) (r_stage r))) = Some row"
    and st: "d_stage row = r_stage r" by blast
  have 7: "step lower (set_stage s3 (d_id d) (r_stage r)) q6 =
             (s', q6\<lparr>q_stage := d_stage row, q_pc := Returned\<rparr>)"
    using step_OutboundWrite [of q6 c d "set_stage s3 (d_id d) (r_stage r)" row lower] row
    by (simp add: q6_def q5_def q4_def q3_def q2_def q1_def start_def s')
  have "q6\<lparr>q_stage := d_stage row, q_pc := Returned\<rparr> =
          \<lparr>q_tenant_id = t, q_payload = p, q_pc = Returned,
                   q_contact = Some (r_contact r), q_deal = Some (r_deal r),
                   q_reply = r_reply r, q_stage = r_stage r\<rparr>"
    by (simp add: q6_def q5_def q4_def q3_def q2_def q1_def start_def st r)
  with 1 2 3 4 5 6 7 show ?thesis by simp
qed

end
